theory Spec2Isabelle
  imports Complex_Main "HOL-Library.Multiset"
begin

section \<open>Python strings\<close>

text \<open>
  A Python \<open>str\<close> is a sequence of Unicode code points. The scripts match on
  CJK brackets and labels, so a string is modelled as the list of its code points
  (\<open>len\<close> is \<open>length\<close>, \<open>==\<close> is list equality). Literals are written as code
  point lists; the constants below name the characters the scripts mention.
\<close>

type_synonym pystr = "nat list"

definition NL :: nat where "NL = 10"  \<comment> \<open>line feed, the one character \<open>.\<close> does not match\<close>
definition SP :: nat where "SP = 32"  \<comment> \<open>space\<close>
definition LB :: nat where "LB = 0x300A"  \<comment> \<open>left double angle bracket (U+300A)\<close>
definition RB :: nat where "RB = 0x300B"  \<comment> \<open>right double angle bracket (U+300B)\<close>
definition LSB :: nat where "LSB = 0x3008"  \<comment> \<open>left angle bracket (U+3008)\<close>
definition RSB :: nat where "RSB = 0x3009"  \<comment> \<open>right angle bracket (U+3009)\<close>
definition FBAR :: nat where "FBAR = 0xFF5C"  \<comment> \<open>fullwidth vertical line (U+FF5C)\<close>
definition BAR :: nat where "BAR = 124"  \<comment> \<open>ASCII vertical line\<close>
definition FCOLON :: nat where "FCOLON = 0xFF1A"  \<comment> \<open>fullwidth colon (U+FF1A)\<close>
definition FSLASH :: nat where "FSLASH = 0xFF0F"  \<comment> \<open>fullwidth solidus (U+FF0F)\<close>
definition HYPHEN :: nat where "HYPHEN = 45"  \<comment> \<open>ASCII hyphen-minus\<close>

definition asc :: "string \<Rightarrow> pystr" where
  \<comment> \<open>the code points of an ASCII literal\<close>
  "asc s = map of_char s"

text \<open>The show labels of the channel, as code points.\<close>

definition label_film :: pystr where  \<comment> \<open>U+8A66 U+6620 U+5287 U+5834\<close>
  "label_film = [0x8A66, 0x6620, 0x5287, 0x5834]"
definition label_song :: pystr where  \<comment> \<open>U+8A66 U+97F3 U+7247\<close>
  "label_song = [0x8A66, 0x97F3, 0x7247]"
definition label_variety :: pystr where  \<comment> \<open>U+8A66 U+4E5C U+90FD U+5F97\<close>
  "label_variety = [0x8A66, 0x4E5C, 0x90FD, 0x5F97]"
definition label_game :: pystr where  \<comment> \<open>U+8A66 U+73A9 U+6BDB\<close>
  "label_game = [0x8A66, 0x73A9, 0x6BDB]"
definition label_channel :: pystr where  \<comment> \<open>U+8A66 U+7576 U+771F, the channel name\<close>
  "label_channel = [0x8A66, 0x7576, 0x771F]"

definition is_space :: "nat \<Rightarrow> bool" where
  \<comment> \<open>\<open>str.isspace\<close> on one character, which is also what \<open>\s\<close> matches in a
      \<open>str\<close> pattern\<close>
  "is_space c \<longleftrightarrow>
     (9 \<le> c \<and> c \<le> 13) \<or> (28 \<le> c \<and> c \<le> 32) \<or> c = 0x85 \<or> c = 0xA0 \<or> c = 0x1680 \<or>
     (0x2000 \<le> c \<and> c \<le> 0x200A) \<or> c = 0x2028 \<or> c = 0x2029 \<or> c = 0x202F \<or>
     c = 0x205F \<or> c = 0x3000"

definition strip_by :: "(nat \<Rightarrow> bool) \<Rightarrow> pystr \<Rightarrow> pystr" where
  \<comment> \<open>remove the leading and trailing characters that satisfy \<open>P\<close>\<close>
  "strip_by P s = rev (dropWhile P (rev (dropWhile P s)))"

definition py_strip :: "pystr \<Rightarrow> pystr" where
  \<comment> \<open>\<open>s.strip()\<close>\<close>
  "py_strip s = strip_by is_space s"

definition strip_chars :: "pystr \<Rightarrow> pystr \<Rightarrow> pystr" where
  \<comment> \<open>\<open>s.strip(chars)\<close>\<close>
  "strip_chars chars s = strip_by (\<lambda>c. c \<in> set chars) s"

definition starts_with :: "pystr \<Rightarrow> pystr \<Rightarrow> bool" where
  \<comment> \<open>\<open>s.startswith(p)\<close>: the literal \<open>p\<close> matches at the start of \<open>s\<close>\<close>
  "starts_with p s \<longleftrightarrow> take (length p) s = p"

fun is_substr :: "pystr \<Rightarrow> pystr \<Rightarrow> bool" where
  \<comment> \<open>\<open>a in b\<close> on strings\<close>
  "is_substr a [] = (a = [])"
| "is_substr a (c # cs) = (starts_with a (c # cs) \<or> is_substr a cs)"

section \<open>Regular expressions of the scripts\<close>

text \<open>
  Each pattern of the scripts is written as a matcher anchored at the start of the
  text it is given; \<open>re.search\<close> tries the matcher at every position from left to
  right and takes the first success.
\<close>

fun re_search :: "(pystr \<Rightarrow> 'a option) \<Rightarrow> pystr \<Rightarrow> 'a option" where
  "re_search m [] = m []"
| "re_search m (c # cs) = (case m (c # cs) of Some g \<Rightarrow> Some g | None \<Rightarrow> re_search m cs)"

definition lazy_group :: "pystr \<Rightarrow> pystr option" where
  \<comment> \<open>\<open>(.+?)\<close> followed by the closing bracket: one character that is not a line
      feed (it may be a closing bracket), then the shortest run without a line feed
      up to the next closing bracket; the group is what precedes that bracket\<close>
  "lazy_group s =
     (case s of
        [] \<Rightarrow> None
      | c # cs \<Rightarrow>
          if c = NL then None
          else (case dropWhile (\<lambda>d. d \<noteq> RB \<and> d \<noteq> NL) cs of
                  [] \<Rightarrow> None
                | d # _ \<Rightarrow>
                    if d = RB then Some (c # takeWhile (\<lambda>d. d \<noteq> RB \<and> d \<noteq> NL) cs)
                    else None))"

definition m_label :: "pystr \<Rightarrow> pystr \<Rightarrow> pystr option" where
  \<comment> \<open>\<open>LABEL\<close>, the opening bracket, \<open>(.+?)\<close>, the closing bracket; the three label
      patterns and, with the empty label, the bare bracket pattern\<close>
  "m_label label s =
     (if starts_with (label @ [LB]) s then lazy_group (drop (length label + 1) s) else None)"

definition m_game :: "pystr \<Rightarrow> pystr option" where
  \<comment> \<open>the game-show label, any run of characters other than the opening bracket
      (line feeds included), the opening bracket, \<open>(.+?)\<close>, the closing bracket\<close>
  "m_game s =
     (if starts_with label_game s
      then (case dropWhile (\<lambda>c. c \<noteq> LB) (drop (length label_game) s) of
              [] \<Rightarrow> None
            | _ # t \<Rightarrow> lazy_group t)
      else None)"

definition patterns_to_extract :: "(pystr \<Rightarrow> pystr option) list" where
  "patterns_to_extract =
     [m_label label_film, m_label label_song, m_label label_variety, m_game, m_label []]"

fun first_match :: "(pystr \<Rightarrow> pystr option) list \<Rightarrow> pystr \<Rightarrow> pystr option" where
  \<comment> \<open>the \<open>for pattern ... break\<close> loop: the group of the first pattern found\<close>
  "first_match [] s = None"
| "first_match (m # ms) s =
     (case re_search m s of Some g \<Rightarrow> Some g | None \<Rightarrow> first_match ms s)"

fun split_head :: "(pystr \<Rightarrow> bool) \<Rightarrow> pystr \<Rightarrow> pystr" where
  \<comment> \<open>\<open>re.split(pattern, s)[0]\<close> for a pattern that matches no empty text: the text
      before the first position where the pattern matches\<close>
  "split_head m [] = []"
| "split_head m (c # cs) = (if m (c # cs) then [] else c # split_head m cs)"

definition ascii_lower :: "nat \<Rightarrow> nat" where
  "ascii_lower c = (if 65 \<le> c \<and> c \<le> 90 then c + 32 else c)"

definition starts_with_ci :: "pystr \<Rightarrow> pystr \<Rightarrow> bool" where
  \<comment> \<open>a lower-case ASCII literal under \<open>re.IGNORECASE\<close>: the letters of
      \<open>- youtube\<close> have no case variants outside ASCII\<close>
  "starts_with_ci p s \<longleftrightarrow> map ascii_lower (take (length p) s) = p"

fun collapse_from :: "bool \<Rightarrow> pystr \<Rightarrow> pystr" where
  \<comment> \<open>the flag says that the previous character was white space\<close>
  "collapse_from prev [] = []"
| "collapse_from prev (c # cs) =
     (if is_space c then (if prev then collapse_from True cs else SP # collapse_from True cs)
      else c # collapse_from False cs)"

definition collapse_ws :: "pystr \<Rightarrow> pystr" where
  \<comment> \<open>\<open>re.sub(r'\s+', ' ', s)\<close>: every maximal run of white space becomes one space\<close>
  "collapse_ws s = collapse_from False s"

section \<open>cross\_reference\_films.py: the normalizer\<close>

definition strip_set :: pystr where
  \<comment> \<open>the argument of \<open>normalized.strip(...)\<close>\<close>
  "strip_set = [LB, RB, 91, 93, 40, 41, FBAR, BAR, FCOLON, 58]"

definition normalize_title :: "pystr \<Rightarrow> pystr" where
  "normalize_title title =
     (if title = [] then []
      else
        let normalized = py_strip title;
            normalized = (case first_match patterns_to_extract normalized of
                            Some g \<Rightarrow> g | None \<Rightarrow> normalized);
            normalized = takeWhile (\<lambda>c. c \<noteq> FBAR \<and> c \<noteq> BAR) normalized;
            normalized = split_head (starts_with (asc ''- YouTube'')) normalized;
            normalized = split_head (starts_with_ci (asc ''- youtube'')) normalized;
            normalized = collapse_ws normalized;
            normalized = strip_chars strip_set normalized
        in py_strip normalized)"

section \<open>matching\_algorithm.py: the title cleaner\<close>

text \<open>
  The patterns of \<open>clean_title\<close> are removed with \<open>re.sub(pattern, '', title)\<close>.
  A matcher returns the text that is left after the match; \<open>re_sub\<close> deletes every
  match, scanning from left to right and resuming after each match.
\<close>

fun re_sub_from :: "(pystr \<Rightarrow> pystr option) \<Rightarrow> nat \<Rightarrow> pystr \<Rightarrow> pystr" where
  \<comment> \<open>the counter is the number of characters of the current match still to delete\<close>
  "re_sub_from m k [] = []"
| "re_sub_from m k (c # cs) =
     (if 0 < k then re_sub_from m (k - 1) cs
      else (case m (c # cs) of
              None \<Rightarrow> c # re_sub_from m 0 cs
            | Some r \<Rightarrow>
                if length r < length (c # cs) then re_sub_from m (length cs - length r) cs
                else c # re_sub_from m 0 cs))"

definition re_sub :: "(pystr \<Rightarrow> pystr option) \<Rightarrow> pystr \<Rightarrow> pystr" where
  "re_sub m s = re_sub_from m 0 s"

definition line_end :: "pystr \<Rightarrow> pystr option" where
  \<comment> \<open>\<open>.*$\<close>: the rest of the line, which must end the text or stand before its
      final line feed; that line feed is not part of the match\<close>
  "line_end r =
     (let rest = dropWhile (\<lambda>c. c \<noteq> NL) r
      in if rest = [] \<or> rest = [NL] then Some rest else None)"

definition m_channel_suffix :: "pystr \<Rightarrow> pystr option" where
  \<comment> \<open>white space, a vertical bar (fullwidth or ASCII), white space, the channel
      name, \<open>.*$\<close>\<close>
  "m_channel_suffix s =
     (case dropWhile is_space s of
        [] \<Rightarrow> None
      | c # s2 \<Rightarrow>
          if c = FBAR \<or> c = BAR
          then (let s3 = dropWhile is_space s2
                in if starts_with label_channel s3
                   then line_end (drop (length label_channel) s3) else None)
          else None)"

definition m_youtube_suffix :: "pystr \<Rightarrow> pystr option" where
  \<comment> \<open>white space, a hyphen, white space, \<open>YouTube\<close>, \<open>.*$\<close>\<close>
  "m_youtube_suffix s =
     (case dropWhile is_space s of
        [] \<Rightarrow> None
      | c # s2 \<Rightarrow>
          if c = HYPHEN
          then (let s3 = dropWhile is_space s2
                in if starts_with (asc ''YouTube'') s3
                   then line_end (drop (length (asc ''YouTube'')) s3) else None)
          else None)"

definition m_closing :: "pystr \<Rightarrow> pystr option" where
  \<comment> \<open>a closing bracket of either kind, white space, \<open>$\<close>: the white space is
      greedy and contains the line feed, so the match reaches the end of the text\<close>
  "m_closing s =
     (case s of
        [] \<Rightarrow> None
      | c # t \<Rightarrow>
          if (c = RB \<or> c = RSB) \<and> dropWhile is_space t = [] then Some [] else None)"

definition sub_label :: "pystr \<Rightarrow> pystr \<Rightarrow> pystr" where
  \<comment> \<open>\<open>re.sub\<close> of a pattern anchored at the start of the text: white space, the
      label, white space, an optional opening bracket of either kind\<close>
  "sub_label label s =
     (let s1 = dropWhile is_space s
      in if starts_with label s1
         then (case dropWhile is_space (drop (length label) s1) of
                 [] \<Rightarrow> []
               | c # t \<Rightarrow> if c = LB \<or> c = LSB then t else c # t)
         else s)"

definition clean_title :: "pystr \<Rightarrow> pystr" where
  "clean_title title =
     (if title = [] then []
      else
        let title = re_sub m_channel_suffix title;
            title = re_sub m_youtube_suffix title;
            title = sub_label label_film title;
            title = sub_label label_song title;
            title = sub_label label_variety title;
            title = re_sub m_closing title;
            title = collapse_ws title
        in py_strip title)"

section \<open>Catalog records\<close>

text \<open>
  The data files are lists of JSON objects, and a catalog record is one such
  object. The model keeps the fields the scripts read: the id is an integer and the
  text fields are strings when present, \<open>None\<close> when the key is absent; every
  other key and value is kept in \<open>others\<close>. A record update changes the named
  field and keeps all the others, as an assignment to one key of a dict does.
\<close>

record entry =
  entry_id :: "int option"
  title :: "pystr option"
  fullTitle :: "pystr option"
  videoUrl :: "pystr option"
  song :: "pystr option"
  movie :: "pystr option"
  others :: "(pystr \<times> pystr) list"

definition get_or_empty :: "pystr option \<Rightarrow> pystr" where
  \<comment> \<open>\<open>d.get(key, '')\<close>\<close>
  "get_or_empty v = (case v of None \<Rightarrow> [] | Some t \<Rightarrow> t)"

definition truthy :: "pystr option \<Rightarrow> bool" where
  \<comment> \<open>the truth value of \<open>d.get(key)\<close>: false for a missing key and for the empty
      string\<close>
  "truthy v \<longleftrightarrow> v \<noteq> None \<and> v \<noteq> Some []"

definition dict_nonempty :: "entry \<Rightarrow> bool" where
  \<comment> \<open>the truth value of a dict: it has at least one key\<close>
  "dict_nonempty e \<longleftrightarrow>
     entry_id e \<noteq> None \<or> title e \<noteq> None \<or> fullTitle e \<noteq> None \<or> videoUrl e \<noteq> None \<or>
     song e \<noteq> None \<or> movie e \<noteq> None \<or> others e \<noteq> []"

section \<open>cross\_reference\_films.py: the similarity scorer and the candidate matcher\<close>

text \<open>
  The scorer calls three things that are not code of the scripts: the ratio of
  \<open>difflib.SequenceMatcher\<close>, \<open>str.lower\<close> and the Unicode class \<open>\w\<close>. They are
  parameters of the model. Scores are Python floats; the model computes with real
  numbers. The \<open>debug\<close> arguments only print and are left out.
\<close>

record textlib =
  seq_ratio :: "pystr \<Rightarrow> pystr \<Rightarrow> real"  \<comment> \<open>\<open>SequenceMatcher(None, a, b).ratio()\<close>\<close>
  str_lower :: "pystr \<Rightarrow> pystr"  \<comment> \<open>\<open>s.lower()\<close>\<close>
  is_word :: "nat \<Rightarrow> bool"  \<comment> \<open>the characters that \<open>\w\<close> matches\<close>

definition placeholders :: "pystr list" where
  \<comment> \<open>the list of meaningless strings: fullwidth solidus, solidus, hyphen, empty, space\<close>
  "placeholders = [[FSLASH], asc ''/'', asc ''-'', [], asc '' '']"

definition calculate_similarity :: "textlib \<Rightarrow> pystr \<Rightarrow> pystr \<Rightarrow> real" where
  "calculate_similarity lib str1 str2 =
     (if str1 = [] \<or> str2 = [] then 0
      else if str2 \<in> set placeholders \<or> length (py_strip str2) < 2 then 0
      else if str1 = str2 then 1
      else
        let norm1 = normalize_title str1;
            norm2 = normalize_title str2
        in if norm1 = [] \<or> norm2 = [] \<or> length (py_strip norm1) < 2 \<or> length (py_strip norm2) < 2
           then 0
           else if norm1 = norm2 then 95 / 100
           else
             let low1 = str_lower lib norm1;
                 low2 = str_lower lib norm2;
                 similarity = seq_ratio lib low1 low2;
                 similarity =
                   (if (is_substr low1 low2 \<or> is_substr low2 low1) \<and>
                       3 \<le> min (length norm1) (length norm2)
                    then max similarity (8 / 10) else similarity);
                 clean1 = filter (is_word lib) low1;
                 clean2 = filter (is_word lib) low2
             in if clean1 = clean2 \<and> 3 \<le> length clean1 then max similarity (9 / 10)
                else if (is_substr clean1 clean2 \<or> is_substr clean2 clean1) \<and>
                        3 \<le> min (length clean1) (length clean2)
                then max similarity (85 / 100)
                else similarity)"

record xref_match =
  x_film :: entry
  x_match :: entry
  x_source :: string
  x_confidence :: real
  x_match_type :: string
  film_title :: pystr
  film_full_title :: pystr
  match_title :: pystr
  match_full_title :: pystr
  x_video_url :: pystr

definition similarities :: "textlib \<Rightarrow> string \<Rightarrow> entry \<Rightarrow> entry \<Rightarrow> (string \<times> real) list" where
  \<comment> \<open>the scores of the field pairs that are defined for a film and a pool item, in
      the order in which the script appends them\<close>
  "similarities lib source_name film item =
     (let ft = get_or_empty (title film);
          fft = get_or_empty (fullTitle film);
          ot = get_or_empty (title item);
          oft = get_or_empty (fullTitle item);
          os = get_or_empty (song item);
          om = get_or_empty (movie item)
      in (if ft \<noteq> [] \<and> ot \<noteq> [] then [(''title_to_title'', calculate_similarity lib ft ot)] else []) @
         (if ft \<noteq> [] \<and> oft \<noteq> [] then [(''title_to_fullTitle'', calculate_similarity lib ft oft)] else []) @
         (if fft \<noteq> [] \<and> ot \<noteq> [] then [(''fullTitle_to_title'', calculate_similarity lib fft ot)] else []) @
         (if fft \<noteq> [] \<and> oft \<noteq> []
          then [(''fullTitle_to_fullTitle'', calculate_similarity lib fft oft)] else []) @
         (if source_name = ''songs''
          then (if ft \<noteq> [] \<and> os \<noteq> [] then [(''title_to_song'', calculate_similarity lib ft os)] else []) @
               (if ft \<noteq> [] \<and> om \<noteq> [] then [(''title_to_movie'', calculate_similarity lib ft om)] else [])
          else []))"

fun max_by_score :: "string \<times> real \<Rightarrow> (string \<times> real) list \<Rightarrow> string \<times> real" where
  \<comment> \<open>\<open>max(similarities, key=lambda x: x[1])\<close>: the first pair with the largest score\<close>
  "max_by_score best [] = best"
| "max_by_score best (x # xs) = max_by_score (if snd best < snd x then x else best) xs"

definition candidate :: "textlib \<Rightarrow> string \<Rightarrow> real \<Rightarrow> entry \<Rightarrow> entry \<Rightarrow> xref_match option" where
  \<comment> \<open>the body of the loop over the pool: the match record appended for one item, if
      any\<close>
  "candidate lib source_name min_confidence film item =
     (if \<not> truthy (videoUrl item) then None
      else (case similarities lib source_name film item of
              [] \<Rightarrow> None
            | x # xs \<Rightarrow>
                let best = max_by_score x xs
                in if min_confidence \<le> snd best
                   then Some \<lparr> x_film = film, x_match = item, x_source = source_name,
                               x_confidence = snd best, x_match_type = fst best,
                               film_title = get_or_empty (title film),
                               film_full_title = get_or_empty (fullTitle film),
                               match_title = get_or_empty (title item),
                               match_full_title = get_or_empty (fullTitle item),
                               x_video_url = get_or_empty (videoUrl item) \<rparr>
                   else None))"

fun best_matches :: "textlib \<Rightarrow> string \<Rightarrow> real \<Rightarrow> entry \<Rightarrow> entry list \<Rightarrow> xref_match list" where
  \<comment> \<open>the list \<open>best_matches\<close> after the loop over the pool, in pool order\<close>
  "best_matches lib source_name min_confidence film [] = []"
| "best_matches lib source_name min_confidence film (item # other_data) =
     (case candidate lib source_name min_confidence film item of
        None \<Rightarrow> best_matches lib source_name min_confidence film other_data
      | Some m \<Rightarrow> m # best_matches lib source_name min_confidence film other_data)"

definition sort_reverse :: "('a \<Rightarrow> real) \<Rightarrow> 'a list \<Rightarrow> 'a list" where
  \<comment> \<open>\<open>xs.sort(key=f, reverse=True)\<close>: Python's sort is stable, and with
      \<open>reverse=True\<close> it still keeps equal keys in their original order (the list is
      reversed, sorted, and reversed again)\<close>
  "sort_reverse f xs = rev (sort_key f (rev xs))"

fun find_matches :: "textlib \<Rightarrow> entry list \<Rightarrow> entry list \<Rightarrow> string \<Rightarrow> real \<Rightarrow> xref_match list" where
  "find_matches lib [] other_data source_name min_confidence = []"
| "find_matches lib (film # films_without_url) other_data source_name min_confidence =
     take 3 (sort_reverse x_confidence (best_matches lib source_name min_confidence film other_data)) @
     find_matches lib films_without_url other_data source_name min_confidence"

section \<open>apply\_video\_url\_updates.py\<close>

fun set_first_url :: "pystr \<Rightarrow> pystr \<Rightarrow> entry list \<Rightarrow> entry list \<times> nat" where
  \<comment> \<open>the loop over the films for one match: the first film with that title and no
      link gets the link, and the loop stops; the number is the increment of
      \<open>updates_made\<close>\<close>
  "set_first_url ftitle url [] = ([], 0)"
| "set_first_url ftitle url (film # films) =
     (if title film = Some ftitle \<and> \<not> truthy (videoUrl film)
      then (film\<lparr>videoUrl := Some url\<rparr> # films, 1)
      else (let (films', n) = set_first_url ftitle url films in (film # films', n)))"

fun apply_all :: "entry list \<Rightarrow> xref_match list \<Rightarrow> entry list \<times> nat" where
  \<comment> \<open>the loop over the high-confidence matches\<close>
  "apply_all films [] = (films, 0)"
| "apply_all films (m # ms) =
     (let (films1, n1) = set_first_url (film_title m) (x_video_url m) films;
          (films2, n2) = apply_all films1 ms
      in (films2, n1 + n2))"

definition apply_updates :: "entry list \<Rightarrow> xref_match list \<Rightarrow> real \<Rightarrow> entry list \<times> nat" where
  \<comment> \<open>\<open>films\<close> is the content of the films file and the second argument is
      \<open>results['all_matches']\<close>; the result is the list that is written back and
      \<open>updates_made\<close>\<close>
  "apply_updates films all_matches min_confidence =
     apply_all films (filter (\<lambda>m. min_confidence \<le> x_confidence m) all_matches)"

section \<open>matching\_algorithm.py: the title matcher\<close>

text \<open>
  The three \<open>fuzzywuzzy\<close> ratios (integers from 0 to 100) and the Unicode class
  \<open>\d\<close> are not code of the scripts and are parameters of the model.
\<close>

record fuzzlib =
  fuzz_ratio :: "pystr \<Rightarrow> pystr \<Rightarrow> int"  \<comment> \<open>\<open>fuzz.ratio\<close>\<close>
  token_sort_ratio :: "pystr \<Rightarrow> pystr \<Rightarrow> int"  \<comment> \<open>\<open>fuzz.token_sort_ratio\<close>\<close>
  partial_ratio :: "pystr \<Rightarrow> pystr \<Rightarrow> int"  \<comment> \<open>\<open>fuzz.partial_ratio\<close>\<close>
  is_digit :: "nat \<Rightarrow> bool"  \<comment> \<open>the characters that \<open>\d\<close> matches\<close>

definition m_episode :: "fuzzlib \<Rightarrow> pystr \<Rightarrow> pystr option" where
  \<comment> \<open>\<open>EP(\d+)\<close> under \<open>re.IGNORECASE\<close>; the result is the whole matched text\<close>
  "m_episode lib s =
     (case s of
        e # p # d # rest \<Rightarrow>
          if (e = 69 \<or> e = 101) \<and> (p = 80 \<or> p = 112) \<and> is_digit lib d
          then Some (e # p # d # takeWhile (is_digit lib) rest)
          else None
      | _ \<Rightarrow> None)"

fun remove_from :: "pystr \<Rightarrow> nat \<Rightarrow> pystr \<Rightarrow> pystr" where
  \<comment> \<open>the counter is the number of characters of the current occurrence still to
      delete\<close>
  "remove_from old k [] = []"
| "remove_from old k (c # cs) =
     (if 0 < k then remove_from old (k - 1) cs
      else if old \<noteq> [] \<and> starts_with old (c # cs) then remove_from old (length old - 1) cs
      else c # remove_from old 0 cs)"

definition extract_episode_info :: "fuzzlib \<Rightarrow> pystr \<Rightarrow> pystr \<times> pystr option" where
  \<comment> \<open>\<open>title.replace(episode, '')\<close> deletes every occurrence of the episode text\<close>
  "extract_episode_info lib t =
     (case re_search (m_episode lib) t of
        Some episode \<Rightarrow> (py_strip (remove_from episode 0 t), Some episode)
      | None \<Rightarrow> (t, None))"

fun py_max :: "real list \<Rightarrow> real" where
  \<comment> \<open>\<open>max(scores) if scores else 0.0\<close>\<close>
  "py_max [] = 0"
| "py_max (x # xs) = fold max xs x"

definition calculate_match_score :: "fuzzlib \<Rightarrow> pystr \<Rightarrow> pystr \<Rightarrow> pystr \<Rightarrow> real" where
  "calculate_match_score lib video_title json_title json_full_title =
     (let clean_video = clean_title video_title;
          clean_json = clean_title json_title;
          clean_full = clean_title json_full_title
      in if clean_video = clean_json \<or> clean_video = clean_full then 100
         else
           let (video_base, video_ep) = extract_episode_info lib clean_video;
               (json_base, json_ep) = extract_episode_info lib clean_json;
               scores =
                 (if is_substr clean_json clean_video \<or> is_substr clean_video clean_json
                  then [95] else []) @
                 (if clean_full \<noteq> [] \<and>
                     (is_substr clean_full clean_video \<or> is_substr clean_video clean_full)
                  then [95] else []) @
                 [real_of_int (fuzz_ratio lib clean_video clean_json)] @
                 (if clean_full \<noteq> [] then [real_of_int (fuzz_ratio lib clean_video clean_full)] else []) @
                 [real_of_int (token_sort_ratio lib clean_video clean_json)] @
                 (if clean_full \<noteq> []
                  then [real_of_int (token_sort_ratio lib clean_video clean_full)] else []) @
                 [real_of_int (partial_ratio lib clean_video clean_json)] @
                 (if clean_full \<noteq> []
                  then [real_of_int (partial_ratio lib clean_video clean_full)] else []) @
                 (if video_ep \<noteq> None \<and> json_ep \<noteq> None \<and> video_ep = json_ep
                  then [min (real_of_int (fuzz_ratio lib video_base json_base) + 20) 100]
                  else [])
           in py_max scores)"

record video =
  v_title :: "pystr option"
  v_url :: "pystr option"
  v_playlist :: "pystr option"

definition is_playlist_appropriate :: "pystr \<Rightarrow> entry \<Rightarrow> bool" where
  "is_playlist_appropriate playlist json_entry = True"

fun best_from :: "fuzzlib \<Rightarrow> real \<Rightarrow> video \<Rightarrow> entry option \<times> real \<Rightarrow> entry list \<Rightarrow> entry option \<times> real" where
  \<comment> \<open>the loop over the entries, from the current \<open>(best_match, best_score)\<close>\<close>
  "best_from lib min_confidence vid best [] = best"
| "best_from lib min_confidence vid best (e # json_entries) =
     (if truthy (videoUrl e) \<and> v_url vid \<noteq> videoUrl e
      then best_from lib min_confidence vid best json_entries
      else
        let score = calculate_match_score lib (get_or_empty (v_title vid))
                      (get_or_empty (title e)) (get_or_empty (fullTitle e));
            score = (if is_playlist_appropriate (get_or_empty (v_playlist vid)) e
                     then score + 5 else score)
        in best_from lib min_confidence vid
             (if snd best < score \<and> min_confidence \<le> score then (Some e, score) else best)
             json_entries)"

definition find_best_match :: "fuzzlib \<Rightarrow> real \<Rightarrow> video \<Rightarrow> entry list \<Rightarrow> entry option \<times> real" where
  \<comment> \<open>\<open>min_confidence\<close> is the attribute of the matcher object\<close>
  "find_best_match lib min_confidence vid json_entries =
     best_from lib min_confidence vid (None, 0) json_entries"

datatype match_kind = Automatic | Fuzzy

record match_info =
  m_video :: video
  json_entry :: entry
  confidence :: real
  video_url :: pystr
  match_type :: match_kind

fun match_videos_to_json :: "fuzzlib \<Rightarrow> real \<Rightarrow> video list \<Rightarrow> entry list \<Rightarrow> match_info list" where
  \<comment> \<open>\<open>if match:\<close> is false for \<open>None\<close> and for an entry that is the empty dict\<close>
  "match_videos_to_json lib min_confidence [] json_entries = []"
| "match_videos_to_json lib min_confidence (vid # videos) json_entries =
     (case find_best_match lib min_confidence vid json_entries of
        (Some e, score) \<Rightarrow>
          if dict_nonempty e
          then \<lparr> m_video = vid, json_entry = e, confidence = score,
                 video_url = get_or_empty (v_url vid),
                 match_type = (if 90 \<le> score then Automatic else Fuzzy) \<rparr>
               # match_videos_to_json lib min_confidence videos json_entries
          else match_videos_to_json lib min_confidence videos json_entries
      | (None, score) \<Rightarrow> match_videos_to_json lib min_confidence videos json_entries)"

section \<open>json\_updater.py: the merge step\<close>

text \<open>
  The loop of \<open>apply_matches_to_file\<close> works on the list loaded from the file and
  reports through the logger. The model takes the loaded list and returns the list
  that is saved, the counter \<open>updates_made\<close> and the log records in the order in
  which they are emitted; the backup, the load and the save around the loop are
  file operations and are not part of the model.
\<close>

datatype log_level = DEBUG | INFO | WARNING | ERROR

datatype log_message =
    ReplacingUrl int "pystr option" pystr  \<comment> \<open>Replacing existing URL for ID ...\<close>
  | UpdatedId int real  \<comment> \<open>Updated entry ID ... with video URL\<close>
  | SkippingDuplicate int "pystr option"  \<comment> \<open>Skipping duplicate update for ID ...\<close>
  | UpdatedTitle pystr real  \<comment> \<open>Updated entry '...' with video URL\<close>

type_synonym log_record = "log_level \<times> log_message"

definition update_entry_with_video_url :: "entry \<Rightarrow> pystr \<Rightarrow> real \<Rightarrow> entry" where
  "update_entry_with_video_url e url conf = e\<lparr>videoUrl := Some url\<rparr>"

fun update_by_id :: "int \<Rightarrow> pystr \<Rightarrow> real \<Rightarrow> entry list \<Rightarrow> entry list \<times> nat \<times> log_record list" where
  \<comment> \<open>the loop over the data for a match whose entry has an id: the first record
      with that id is examined and the loop stops\<close>
  "update_by_id eid url conf [] = ([], 0, [])"
| "update_by_id eid url conf (e # es) =
     (if entry_id e = Some eid
      then (let existing_url = videoUrl e
            in if \<not> truthy existing_url \<or> 95 < conf \<or> existing_url \<noteq> Some url
               then (update_entry_with_video_url e url conf # es, 1,
                     (if truthy existing_url \<and> existing_url \<noteq> Some url
                      then [(INFO, ReplacingUrl eid existing_url url)] else []) @
                     [(INFO, UpdatedId eid conf)])
               else (e # es, 0, [(DEBUG, SkippingDuplicate eid existing_url)]))
      else (let (es', n, lg) = update_by_id eid url conf es in (e # es', n, lg)))"

fun update_by_title :: "pystr \<Rightarrow> pystr \<Rightarrow> real \<Rightarrow> entry list \<Rightarrow> entry list \<times> nat \<times> log_record list" where
  \<comment> \<open>the loop over the data for a match whose entry has no id: the first record
      with an equal title is examined and the loop stops\<close>
  "update_by_title t url conf [] = ([], 0, [])"
| "update_by_title t url conf (e # es) =
     (if title e = Some t
      then (if \<not> truthy (videoUrl e) \<or> 95 < conf
            then (update_entry_with_video_url e url conf # es, 1, [(INFO, UpdatedTitle t conf)])
            else (e # es, 0, []))
      else (let (es', n, lg) = update_by_title t url conf es in (e # es', n, lg)))"

definition apply_match :: "entry list \<Rightarrow> match_info \<Rightarrow> entry list \<times> nat \<times> log_record list" where
  \<comment> \<open>the body of the loop over the matches\<close>
  "apply_match data m =
     (case entry_id (json_entry m) of
        Some eid \<Rightarrow> update_by_id eid (video_url m) (confidence m) data
      | None \<Rightarrow> update_by_title (get_or_empty (title (json_entry m))) (video_url m) (confidence m) data)"

fun apply_matches_to_file :: "entry list \<Rightarrow> match_info list \<Rightarrow> entry list \<times> nat \<times> log_record list" where
  "apply_matches_to_file data [] = (data, 0, [])"
| "apply_matches_to_file data (m # matches) =
     (let (data1, n1, lg1) = apply_match data m;
          (data2, n2, lg2) = apply_matches_to_file data1 matches
      in (data2, n1 + n2, lg1 @ lg2))"

section \<open>Example inputs\<close>

text \<open>
  The two titles of the self-test of \<open>matching_algorithm.py\<close>: the video title is
  the game-show label, \<open>EP06\<close>, a bracketed name of four characters (U+54C8 U+5229
  U+6CE2 U+814E), a fullwidth bar and the channel name; the catalog title is the same
  without the bar and the channel name.
\<close>

definition test_video_title :: pystr where
  "test_video_title =
     label_game @ asc ''EP06'' @ [LB, 0x54C8, 0x5229, 0x6CE2, 0x814E, RB, FBAR] @ label_channel"

definition test_json_title :: pystr where
  "test_json_title = label_game @ asc ''EP06'' @ [LB, 0x54C8, 0x5229, 0x6CE2, 0x814E, RB]"

definition blank :: entry where
  \<comment> \<open>the empty JSON object\<close>
  "blank = \<lparr> entry_id = None, title = None, fullTitle = None, videoUrl = None,
             song = None, movie = None, others = [] \<rparr>"

definition a_video :: video where
  "a_video = \<lparr> v_title = Some (asc ''ab''), v_url = Some (asc ''u2''), v_playlist = None \<rparr>"

definition cand :: "entry \<Rightarrow> pystr \<Rightarrow> real \<Rightarrow> match_info" where
  \<comment> \<open>a match record as \<open>match_videos_to_json\<close> builds it\<close>
  "cand e url c = \<lparr> m_video = a_video, json_entry = e, confidence = c, video_url = url,
                     match_type = (if 90 \<le> c then Automatic else Fuzzy) \<rparr>"

definition rec_id :: entry where
  \<comment> \<open>a record with id 1 and no link\<close>
  "rec_id = blank\<lparr>entry_id := Some 1, title := Some (asc ''cd'')\<rparr>"

definition rec_id_linked :: entry where
  \<comment> \<open>a record with id 1 and the link \<open>u1\<close>\<close>
  "rec_id_linked = rec_id\<lparr>videoUrl := Some (asc ''u1'')\<rparr>"

definition rec_title :: entry where
  \<comment> \<open>a record without id and without link\<close>
  "rec_title = blank\<lparr>title := Some (asc ''ab'')\<rparr>"

definition rec_title_linked :: entry where
  \<comment> \<open>a record without id, with the link \<open>u1\<close>\<close>
  "rec_title_linked = rec_title\<lparr>videoUrl := Some (asc ''u1'')\<rparr>"

definition rec_title_twin :: entry where
  \<comment> \<open>a second record with the same title, told apart by another field\<close>
  "rec_title_twin = rec_title\<lparr>others := [(asc ''year'', asc ''2021'')]\<rparr>"

definition xcand :: "pystr \<Rightarrow> pystr \<Rightarrow> real \<Rightarrow> xref_match" where
  \<comment> \<open>a match record of the cross-reference results\<close>
  "xcand t url c = \<lparr> x_film = rec_title, x_match = rec_title_linked, x_source = ''ads'',
                      x_confidence = c, x_match_type = ''title_to_title'', film_title = t,
                      film_full_title = [], match_title = t, match_full_title = [],
                      x_video_url = url \<rparr>"

section \<open>Lookup of a record\<close>

definition finds :: "match_info \<Rightarrow> entry list \<Rightarrow> entry \<Rightarrow> bool" where
  \<comment> \<open>in the data \<open>pre @ e # post\<close>, the lookup for the match stops at \<open>e\<close>: by id
      when the matched entry has one, by title otherwise\<close>
  "finds m pre e \<longleftrightarrow>
     (case entry_id (json_entry m) of
        Some i \<Rightarrow> entry_id e = Some i \<and> (\<forall>x \<in> set pre. entry_id x \<noteq> Some i)
      | None \<Rightarrow> title e = Some (get_or_empty (title (json_entry m))) \<and>
                (\<forall>x \<in> set pre. title x \<noteq> Some (get_or_empty (title (json_entry m)))))"

section \<open>Whether the merge step sets the link\<close>

definition updates_first :: "match_info \<Rightarrow> entry \<Rightarrow> bool" where
  \<comment> \<open>the condition under which the merge step, having found the record \<open>e\<close> for the
      match, sets its link: the record has none, or the confidence exceeds 95, or the
      record was found by id and carries another link\<close>
  "updates_first m e \<longleftrightarrow>
     \<not> truthy (videoUrl e) \<or> 95 < confidence m \<or>
     (entry_id (json_entry m) \<noteq> None \<and> videoUrl e \<noteq> Some (video_url m))"

section \<open>Library stand-ins for the examples\<close>

text \<open>
  The examples need values for the library parameters. The fuzzy ratios are
  constant, since no example reaches them; lower-casing and the character classes
  are the ASCII ones.
\<close>

definition no_fuzz :: fuzzlib where
  "no_fuzz = \<lparr> fuzz_ratio = (\<lambda>a b. 0), token_sort_ratio = (\<lambda>a b. 0),
               partial_ratio = (\<lambda>a b. 0), is_digit = (\<lambda>c. 48 \<le> c \<and> c \<le> 57) \<rparr>"

definition ascii_text :: textlib where
  "ascii_text = \<lparr> seq_ratio = (\<lambda>a b. 0), str_lower = map ascii_lower,
                  is_word = (\<lambda>c. (48 \<le> c \<and> c \<le> 57) \<or> (65 \<le> c \<and> c \<le> 90) \<or> c = 95 \<or>
                                 (97 \<le> c \<and> c \<le> 122)) \<rparr>"

section \<open>The current best match\<close>

definition admissible :: "video \<Rightarrow> entry list \<Rightarrow> entry option \<times> real \<Rightarrow> bool" where
  \<comment> \<open>the current best match, if any, is an entry of the list and does not carry a
      link other than the video's\<close>
  "admissible vid es best \<longleftrightarrow>
     (case fst best of
        None \<Rightarrow> True
      | Some e \<Rightarrow> e \<in> set es \<and> \<not> (truthy (videoUrl e) \<and> v_url vid \<noteq> videoUrl e))"

section \<open>An example pool\<close>

definition pool_item :: "pystr \<Rightarrow> pystr \<Rightarrow> entry" where
  "pool_item t url = blank\<lparr>title := Some t, videoUrl := Some url\<rparr>"

definition pool4 :: "entry list" where
  \<comment> \<open>four linked items whose titles are \<open>ab\<close>, \<open>ab\<close> in double angle brackets,
      \<open>ab\<close> again and \<open>(ab)\<close>, and one item without a link\<close>
  "pool4 = [pool_item (asc ''ab'') (asc ''u1''), pool_item ([LB] @ asc ''ab'' @ [RB]) (asc ''u2''),
            pool_item (asc ''ab'') (asc ''u3''), pool_item (asc ''(ab)'') (asc ''u4''),
            rec_title]"

section \<open>Normal forms that are fixed points\<close>

fun ws_normal_from :: "bool \<Rightarrow> pystr \<Rightarrow> bool" where
  \<comment> \<open>every white-space character is a single space that follows no white space;
      the flag says that the previous character was white space\<close>
  "ws_normal_from prev [] = True"
| "ws_normal_from prev (c # cs) =
     (if is_space c then c = SP \<and> \<not> prev \<and> ws_normal_from True cs else ws_normal_from False cs)"

definition settled_normal :: "pystr \<Rightarrow> bool" where
  \<comment> \<open>nothing is left for \<open>normalize_title\<close> to remove: no pattern of the list is
      found, the text does not contain \<open>- youtube\<close> in any letter case, and no
      character of the strip set stands at either end\<close>
  "settled_normal y \<longleftrightarrow>
     first_match patterns_to_extract y = None \<and>
     \<not> is_substr (asc ''- youtube'') (map ascii_lower y) \<and>
     (y \<noteq> [] \<longrightarrow> hd y \<notin> set strip_set \<and> last y \<notin> set strip_set)"

definition settled_clean :: "pystr \<Rightarrow> bool" where
  \<comment> \<open>nothing is left for \<open>clean_title\<close> to remove: neither suffix pattern (a bar
      before the channel name, a hyphen before \<open>YouTube\<close>) is found, none of the three
      labels stands at the start and no closing bracket at the end\<close>
  "settled_clean y \<longleftrightarrow>
     re_search m_channel_suffix y = None \<and> re_search m_youtube_suffix y = None \<and>
     \<not> starts_with label_film y \<and> \<not> starts_with label_song y \<and>
     \<not> starts_with label_variety y \<and>
     (y \<noteq> [] \<longrightarrow> last y \<noteq> RB \<and> last y \<noteq> RSB)"

definition hyphenated :: pystr where
  \<comment> \<open>a title with a hyphen and a bar that neither normalizer's second pass touches\<close>
  "hyphenated = asc ''a-b | c''"

section \<open>Evaluation rules\<close>

lemmas char_defs = NL_def SP_def LB_def RB_def LSB_def RSB_def FBAR_def BAR_def FCOLON_def
  FSLASH_def HYPHEN_def asc_def label_film_def label_song_def label_variety_def label_game_def
  label_channel_def

lemmas string_defs = is_space_def strip_by_def py_strip_def strip_chars_def starts_with_def
  starts_with_ci_def ascii_lower_def collapse_ws_def strip_set_def

lemmas normalize_defs = normalize_title_def patterns_to_extract_def m_label_def m_game_def
  lazy_group_def

lemmas clean_defs = clean_title_def re_sub_def line_end_def m_channel_suffix_def
  m_youtube_suffix_def m_closing_def sub_label_def

section \<open>The flagship title\<close>

lemma normalize_test_video_title:
  "normalize_title test_video_title = [0x54C8, 0x5229, 0x6CE2, 0x814E]"
  by (simp add: test_video_title_def normalize_defs string_defs char_defs)

lemma normalize_test_json_title:
  "normalize_title test_json_title = [0x54C8, 0x5229, 0x6CE2, 0x814E]"
  by (simp add: test_json_title_def normalize_defs string_defs char_defs)

lemma clean_test_video_title:
  "clean_title test_video_title = label_game @ asc ''EP06'' @ [LB, 0x54C8, 0x5229, 0x6CE2, 0x814E]"
  by (simp add: test_video_title_def clean_defs string_defs char_defs)

lemma clean_test_json_title:
  "clean_title test_json_title = label_game @ asc ''EP06'' @ [LB, 0x54C8, 0x5229, 0x6CE2, 0x814E]"
  by (simp add: test_json_title_def clean_defs string_defs char_defs)

text \<open>
  C7. The flagship title normalizes to the bracketed name alone: the label, the
  episode code and the channel suffix are gone. Scored against the catalog title, it
  gets 0.95, whatever the fuzzy-matching library returns, because the two normal
  forms are equal: the score is at least 0.9.
\<close>

theorem flagship_scenario:
  "normalize_title test_video_title = [0x54C8, 0x5229, 0x6CE2, 0x814E] \<and>
   calculate_similarity lib test_video_title test_json_title = 95 / 100 \<and>
   9 / 10 \<le> calculate_similarity lib test_video_title test_json_title"
proof -
  have ne: "test_video_title \<noteq> test_json_title" "test_video_title \<noteq> []" "test_json_title \<noteq> []"
    by (simp_all add: test_video_title_def test_json_title_def char_defs)
  have np: "test_json_title \<notin> set placeholders" "\<not> length (py_strip test_json_title) < 2"
    by (simp_all add: test_json_title_def placeholders_def string_defs char_defs)
  have "calculate_similarity lib test_video_title test_json_title = 95 / 100"
    unfolding calculate_similarity_def using ne np
    by (simp add: normalize_test_video_title normalize_test_json_title string_defs)
  then show ?thesis using normalize_test_video_title by simp
qed

section \<open>The scale of the scores of the title matcher\<close>

text \<open>
  C5. The score returned by \<open>find_best_match\<close> is not bounded by 100. For the video
  and the catalog title of the self-test, the cleaned titles are equal, so
  \<open>calculate_match_score\<close> returns 100; the playlist bonus of 5 is added without a
  cap, and the entry is returned with the score 105. (The episode bonus in
  \<open>calculate_match_score\<close> is capped at 100.)
\<close>

theorem find_best_match_exceeds_scale:
  "find_best_match lib 70
     \<lparr> v_title = Some test_video_title, v_url = Some (asc ''u''), v_playlist = None \<rparr>
     [blank\<lparr>title := Some test_json_title\<rparr>]
   = (Some (blank\<lparr>title := Some test_json_title\<rparr>), 105)"
  by (simp add: find_best_match_def calculate_match_score_def clean_test_video_title
      clean_test_json_title is_playlist_appropriate_def get_or_empty_def truthy_def blank_def)

section \<open>The merge step\<close>

lemmas example_defs = blank_def a_video_def cand_def rec_id_def rec_id_linked_def rec_title_def
  rec_title_linked_def rec_title_twin_def xcand_def

lemma update_by_id_first:
  "\<forall>x \<in> set pre. entry_id x \<noteq> Some eid \<Longrightarrow> entry_id e = Some eid \<Longrightarrow>
   update_by_id eid url conf (pre @ e # post) =
     (if \<not> truthy (videoUrl e) \<or> 95 < conf \<or> videoUrl e \<noteq> Some url
      then (pre @ e\<lparr>videoUrl := Some url\<rparr> # post, 1,
            (if truthy (videoUrl e) \<and> videoUrl e \<noteq> Some url
             then [(INFO, ReplacingUrl eid (videoUrl e) url)] else []) @ [(INFO, UpdatedId eid conf)])
      else (pre @ e # post, 0, [(DEBUG, SkippingDuplicate eid (videoUrl e))]))"
  by (induction pre) (auto simp: update_entry_with_video_url_def Let_def)

lemma update_by_title_first:
  "\<forall>x \<in> set pre. title x \<noteq> Some t \<Longrightarrow> title e = Some t \<Longrightarrow>
   update_by_title t url conf (pre @ e # post) =
     (if \<not> truthy (videoUrl e) \<or> 95 < conf
      then (pre @ e\<lparr>videoUrl := Some url\<rparr> # post, 1, [(INFO, UpdatedTitle t conf)])
      else (pre @ e # post, 0, []))"
  by (induction pre) (simp_all add: update_entry_with_video_url_def)

lemma apply_single: "apply_matches_to_file data [m] = apply_match data m"
  by (simp split: prod.splits)




text \<open>
  C3, as stated, fails above the override threshold: a record with id 1 and no link,
  and a candidate for it with confidence 96. The first application sets the link;
  the second application of the same candidate updates the record again and counts
  one more update.
\<close>

theorem merge_twice_counterexample:
  "apply_matches_to_file [rec_id] [cand rec_id (asc ''u2'') 96] =
     ([rec_id\<lparr>videoUrl := Some (asc ''u2'')\<rparr>], 1, [(INFO, UpdatedId 1 96)]) \<and>
   apply_matches_to_file [rec_id\<lparr>videoUrl := Some (asc ''u2'')\<rparr>] [cand rec_id (asc ''u2'') 96] =
     ([rec_id\<lparr>videoUrl := Some (asc ''u2'')\<rparr>], 1, [(INFO, UpdatedId 1 96)])"
  by (simp add: apply_match_def example_defs truthy_def update_entry_with_video_url_def asc_def)

lemma apply_found:
  "finds m pre e \<Longrightarrow>
   fst (apply_matches_to_file (pre @ e # post) [m]) =
     (if updates_first m e then pre @ e\<lparr>videoUrl := Some (video_url m)\<rparr> # post
      else pre @ e # post) \<and>
   fst (snd (apply_matches_to_file (pre @ e # post) [m])) = (if updates_first m e then 1 else 0)"
  by (auto simp: apply_single apply_match_def finds_def updates_first_def update_by_id_first
      update_by_title_first split: option.splits)

text \<open>
  C3, amended. Let the lookup find a record for the candidate. Applying the same
  candidate a second time always leaves the data as they are after the first
  application. If the record has no link, or the confidence exceeds 95, or the record
  was found by id and carries another link, the first application sets the record's
  link to the candidate's and counts one update; the second application then counts
  no update when the confidence is at most 95 and the candidate's link is not the
  empty string, and one more update otherwise. In the remaining case (a linked
  record, a confidence of at most 95, and a lookup by title or a link that is already
  the candidate's) both applications leave the record as it is and count nothing.
\<close>

theorem merge_twice_outcome:
  "finds m pre e \<Longrightarrow>
   (case apply_matches_to_file (pre @ e # post) [m] of
      (data1, n1, lg1) \<Rightarrow>
        (case apply_matches_to_file data1 [m] of
           (data2, n2, lg2) \<Rightarrow>
             data2 = data1 \<and>
             (if updates_first m e
              then data1 = pre @ e\<lparr>videoUrl := Some (video_url m)\<rparr> # post \<and> n1 = 1 \<and>
                   n2 = (if confidence m \<le> 95 \<and> video_url m \<noteq> [] then 0 else 1)
              else data1 = pre @ e # post \<and> n1 = 0 \<and> n2 = 0)))"
proof -
  assume f: "finds m pre e"
  let ?e' = "e\<lparr>videoUrl := Some (video_url m)\<rparr>"
  have f': "finds m pre ?e'" using f by (simp add: finds_def split: option.splits)
  have again: "updates_first m ?e' \<longleftrightarrow> \<not> (confidence m \<le> 95 \<and> video_url m \<noteq> [])"
    by (auto simp: updates_first_def truthy_def)
  have same: "?e'\<lparr>videoUrl := Some (video_url m)\<rparr> = ?e'" by simp
  show ?thesis
  proof (cases "updates_first m e")
    case True
    have 1: "fst (apply_matches_to_file (pre @ e # post) [m]) = pre @ ?e' # post"
      "fst (snd (apply_matches_to_file (pre @ e # post) [m])) = 1"
      using apply_found[OF f, of post] True by simp_all
    have 2: "fst (apply_matches_to_file (pre @ ?e' # post) [m]) = pre @ ?e' # post"
      "fst (snd (apply_matches_to_file (pre @ ?e' # post) [m])) =
         (if confidence m \<le> 95 \<and> video_url m \<noteq> [] then 0 else 1)"
      using apply_found[OF f', of post] again same by (simp_all split: if_splits)
    show ?thesis using True 1 2 by (auto split: prod.splits)
  next
    case False
    have 1: "fst (apply_matches_to_file (pre @ e # post) [m]) = pre @ e # post"
      "fst (snd (apply_matches_to_file (pre @ e # post) [m])) = 0"
      using apply_found[OF f, of post] False by simp_all
    show ?thesis using False 1 by (auto split: prod.splits)
  qed
qed

theorem merge_twice_outcome_witness:
  "finds (cand rec_id (asc ''u2'') 80) [rec_title] rec_id \<and>
   updates_first (cand rec_id (asc ''u2'') 80) rec_id \<and>
   apply_matches_to_file [rec_title, rec_id] [cand rec_id (asc ''u2'') 80] =
     ([rec_title, rec_id\<lparr>videoUrl := Some (asc ''u2'')\<rparr>], 1, [(INFO, UpdatedId 1 80)]) \<and>
   apply_matches_to_file [rec_title, rec_id\<lparr>videoUrl := Some (asc ''u2'')\<rparr>]
       [cand rec_id (asc ''u2'') 80] =
     ([rec_title, rec_id\<lparr>videoUrl := Some (asc ''u2'')\<rparr>], 0,
      [(DEBUG, SkippingDuplicate 1 (Some (asc ''u2'')))]) \<and>
   finds (cand rec_id (asc ''u2'') 80) [] rec_id_linked \<and>
   updates_first (cand rec_id (asc ''u2'') 80) rec_id_linked \<and>
   fst (snd (apply_matches_to_file [rec_id_linked] [cand rec_id (asc ''u2'') 80])) = 1 \<and>
   fst (snd (apply_matches_to_file [rec_id_linked\<lparr>videoUrl := Some (asc ''u2'')\<rparr>]
       [cand rec_id (asc ''u2'') 80])) = 0 \<and>
   finds (cand rec_title (asc ''u2'') 50) [] rec_title_linked \<and>
   \<not> updates_first (cand rec_title (asc ''u2'') 50) rec_title_linked \<and>
   apply_matches_to_file [rec_title_linked] [cand rec_title (asc ''u2'') 50] =
     ([rec_title_linked], 0, [])"
  using merge_twice_outcome [of "cand rec_id (asc ''u2'') 80" "[rec_title]" rec_id "[]"]
    merge_twice_outcome [of "cand rec_id (asc ''u2'') 80" "[]" rec_id_linked "[]"]
    merge_twice_outcome [of "cand rec_title (asc ''u2'') 50" "[]" rec_title_linked "[]"]
  by (simp add: finds_def updates_first_def apply_match_def example_defs truthy_def
      get_or_empty_def update_entry_with_video_url_def asc_def Let_def)




section \<open>Applying the cross-reference results\<close>

lemma set_first_url_length: "length (fst (set_first_url t u fs)) = length fs"
  by (induction fs) (auto split: prod.splits)

lemma set_first_url_nth:
  "i < length fs \<Longrightarrow>
   fst (set_first_url t u fs) ! i =
     (if title (fs ! i) = Some t \<and> \<not> truthy (videoUrl (fs ! i)) \<and>
         (\<forall>j<i. \<not> (title (fs ! j) = Some t \<and> \<not> truthy (videoUrl (fs ! j))))
      then (fs ! i)\<lparr>videoUrl := Some u\<rparr> else fs ! i)"
proof (induction fs arbitrary: i)
  case Nil then show ?case by simp
next
  case (Cons f fs)
  show ?case
  proof (cases i)
    case 0 then show ?thesis by (auto split: prod.splits)
  next
    case (Suc k)
    then have k: "k < length fs" using Cons.prems by simp
    show ?thesis
    proof (cases "title f = Some t \<and> \<not> truthy (videoUrl f)")
      case True
      then show ?thesis using Suc by auto
    next
      case False
      have "(\<forall>j<Suc k. \<not> (title ((f # fs) ! j) = Some t \<and> \<not> truthy (videoUrl ((f # fs) ! j)))) =
            (\<forall>j<k. \<not> (title (fs ! j) = Some t \<and> \<not> truthy (videoUrl (fs ! j))))"
        using False by (auto simp: less_Suc_eq_0_disj)
      then show ?thesis using False Suc Cons.IH[OF k] by (auto split: prod.splits)
    qed
  qed
qed

lemma apply_all_length: "length (fst (apply_all fs ms)) = length fs"
proof (induction ms arbitrary: fs)
  case Nil then show ?case by simp
next
  case (Cons m ms)
  show ?case using Cons.IH[of "fst (set_first_url (film_title m) (x_video_url m) fs)"]
    by (auto split: prod.splits simp: set_first_url_length dest: arg_cong[where f=fst])
qed

lemma apply_all_frame:
  "i < length fs \<Longrightarrow>
   (truthy (videoUrl (fs ! i)) \<longrightarrow> fst (apply_all fs ms) ! i = fs ! i) \<and>
   (\<exists>u. fst (apply_all fs ms) ! i = fs ! i \<or> fst (apply_all fs ms) ! i = (fs ! i)\<lparr>videoUrl := Some u\<rparr>)"
proof (induction ms arbitrary: fs)
  case Nil then show ?case by simp
next
  case (Cons m ms)
  let ?fs1 = "fst (set_first_url (film_title m) (x_video_url m) fs)"
  have l: "i < length ?fs1" using Cons.prems by (simp add: set_first_url_length)
  have eq: "fst (apply_all fs (m # ms)) = fst (apply_all ?fs1 ms)"
    by (auto split: prod.splits)
  have n: "?fs1 ! i = fs ! i \<or> (\<not> truthy (videoUrl (fs ! i)) \<and> ?fs1 ! i = (fs ! i)\<lparr>videoUrl := Some (x_video_url m)\<rparr>)"
    using set_first_url_nth[OF Cons.prems, of "film_title m" "x_video_url m"] by (auto split: if_splits)
  from Cons.IH[OF l] n show ?case unfolding eq by auto
qed

text \<open>
  C10. For one match, \<open>apply_updates\<close> keeps the length of the film list, and a film
  that differs afterwards is the first film in list order whose title equals the
  match's film title and that has no link; it differs only in that its link is now
  the match's. For any list of matches, a film that has a link is never changed,
  whatever the confidences, and every film is either unchanged or changed in its
  link only.
\<close>

theorem apply_updates_frame:
  "length (fst (apply_updates films [m] c)) = length films \<and>
   (\<forall>i < length films.
      fst (apply_updates films [m] c) ! i \<noteq> films ! i \<longrightarrow>
        title (films ! i) = Some (film_title m) \<and> \<not> truthy (videoUrl (films ! i)) \<and>
        (\<forall>j<i. \<not> (title (films ! j) = Some (film_title m) \<and> \<not> truthy (videoUrl (films ! j)))) \<and>
        fst (apply_updates films [m] c) ! i = (films ! i)\<lparr>videoUrl := Some (x_video_url m)\<rparr>) \<and>
   length (fst (apply_updates films ms c)) = length films \<and>
   (\<forall>i < length films.
      (truthy (videoUrl (films ! i)) \<longrightarrow> fst (apply_updates films ms c) ! i = films ! i) \<and>
      (\<exists>u. fst (apply_updates films ms c) ! i = films ! i \<or>
           fst (apply_updates films ms c) ! i = (films ! i)\<lparr>videoUrl := Some u\<rparr>))"
proof -
  have single: "fst (apply_updates films [m] c) =
      (if c \<le> x_confidence m then fst (set_first_url (film_title m) (x_video_url m) films) else films)"
    by (auto simp: apply_updates_def split: prod.splits)
  have a: "length (fst (apply_updates films [m] c)) = length films"
    by (simp add: single set_first_url_length)
  have b: "\<forall>i < length films.
      fst (apply_updates films [m] c) ! i \<noteq> films ! i \<longrightarrow>
        title (films ! i) = Some (film_title m) \<and> \<not> truthy (videoUrl (films ! i)) \<and>
        (\<forall>j<i. \<not> (title (films ! j) = Some (film_title m) \<and> \<not> truthy (videoUrl (films ! j)))) \<and>
        fst (apply_updates films [m] c) ! i = (films ! i)\<lparr>videoUrl := Some (x_video_url m)\<rparr>"
  proof (intro allI impI)
    fix i assume i: "i < length films" and d: "fst (apply_updates films [m] c) ! i \<noteq> films ! i"
    from d have c: "c \<le> x_confidence m" by (auto simp: single split: if_splits)
    show "title (films ! i) = Some (film_title m) \<and> \<not> truthy (videoUrl (films ! i)) \<and>
        (\<forall>j<i. \<not> (title (films ! j) = Some (film_title m) \<and> \<not> truthy (videoUrl (films ! j)))) \<and>
        fst (apply_updates films [m] c) ! i = (films ! i)\<lparr>videoUrl := Some (x_video_url m)\<rparr>"
      using d c set_first_url_nth[OF i, of "film_title m" "x_video_url m"]
      by (simp add: single split: if_splits)
  qed
  have c: "length (fst (apply_updates films ms c)) = length films"
    by (simp add: apply_updates_def apply_all_length)
  have d: "\<forall>i < length films.
      (truthy (videoUrl (films ! i)) \<longrightarrow> fst (apply_updates films ms c) ! i = films ! i) \<and>
      (\<exists>u. fst (apply_updates films ms c) ! i = films ! i \<or>
           fst (apply_updates films ms c) ! i = (films ! i)\<lparr>videoUrl := Some u\<rparr>)"
    using apply_all_frame by (simp add: apply_updates_def)
  show ?thesis using a b c d by blast
qed

theorem apply_updates_frame_witness:
  "fst (apply_updates [rec_title_linked, rec_title_twin, rec_title]
          [xcand (asc ''ab'') (asc ''u2'') (95 / 100)] (9 / 10)) ! 1 \<noteq>
     [rec_title_linked, rec_title_twin, rec_title] ! 1 \<and>
   fst (apply_updates [rec_title_linked, rec_title_twin, rec_title]
          [xcand (asc ''ab'') (asc ''u2'') (95 / 100)] (9 / 10)) =
     [rec_title_linked, rec_title_twin\<lparr>videoUrl := Some (asc ''u2'')\<rparr>, rec_title] \<and>
   truthy (videoUrl ([rec_title_linked, rec_title_twin, rec_title] ! 0))"
  using apply_updates_frame [of "[rec_title_linked, rec_title_twin, rec_title]"
      "xcand (asc ''ab'') (asc ''u2'') (95 / 100)" "9 / 10"
      "[xcand (asc ''ab'') (asc ''u2'') (95 / 100)]"]
  by (simp add: apply_updates_def example_defs truthy_def asc_def)

section \<open>Placeholder strings\<close>

lemma placeholder_normal_form_short:
  "p \<in> set placeholders \<Longrightarrow> normalize_title p = [] \<or> length (py_strip (normalize_title p)) < 2"
  by (auto simp: placeholders_def normalize_defs string_defs char_defs)

text \<open>
  C6. For every string \<open>a\<close> and every placeholder \<open>p\<close> of the configured list,
  \<open>calculate_similarity\<close> returns 0 with the placeholder in either position. As the
  second argument the placeholder is rejected by the list itself; as the first
  argument it is rejected because its normal form has fewer than two characters.
\<close>

theorem placeholder_similarity_zero:
  "p \<in> set placeholders \<Longrightarrow>
   calculate_similarity lib a p = 0 \<and> calculate_similarity lib p a = 0"
proof
  assume p: "p \<in> set placeholders"
  show "calculate_similarity lib a p = 0"
    using p by (simp add: calculate_similarity_def)
  show "calculate_similarity lib p a = 0"
  proof (cases "p = a")
    case True
    then show ?thesis using p by (simp add: calculate_similarity_def)
  next
    case False
    then show ?thesis using placeholder_normal_form_short[OF p]
      by (auto simp: calculate_similarity_def Let_def)
  qed
qed

theorem placeholder_similarity_zero_witness:
  "[FSLASH] \<in> set placeholders \<and>
   calculate_similarity ascii_text test_json_title [FSLASH] = 0 \<and>
   calculate_similarity ascii_text [FSLASH] test_json_title = 0"
  using placeholder_similarity_zero [of "[FSLASH]" ascii_text test_json_title]
  by (simp add: placeholders_def)

section \<open>The title matcher never proposes to replace a link\<close>

lemma best_from_admissible:
  "admissible vid all best \<Longrightarrow> set es \<subseteq> set all \<Longrightarrow>
   admissible vid all (best_from lib c vid best es)"
proof (induction es arbitrary: best)
  case Nil then show ?case by simp
next
  case (Cons e es)
  show ?case
  proof (cases "truthy (videoUrl e) \<and> v_url vid \<noteq> videoUrl e")
    case True
    then show ?thesis using Cons by simp
  next
    case False
    let ?score = "calculate_match_score lib (get_or_empty (v_title vid)) (get_or_empty (title e)) (get_or_empty (fullTitle e))"
    let ?s = "if is_playlist_appropriate (get_or_empty (v_playlist vid)) e then ?score + 5 else ?score"
    let ?b = "if snd best < ?s \<and> c \<le> ?s then (Some e, ?s) else best"
    have "admissible vid all ?b" using Cons.prems False by (auto simp: admissible_def)
    then have "admissible vid all (best_from lib c vid ?b es)" using Cons.IH Cons.prems by simp
    then show ?thesis using False by (auto simp: Let_def)
  qed
qed

lemma find_best_match_admissible:
  "find_best_match lib c vid es = (Some e, s) \<Longrightarrow>
   e \<in> set es \<and> \<not> (truthy (videoUrl e) \<and> v_url vid \<noteq> videoUrl e)"
  using best_from_admissible[of vid es "(None, 0)" es lib c]
  by (simp add: find_best_match_def admissible_def)

text \<open>
  C9. An entry returned by \<open>find_best_match\<close> is an entry of the list that does
  not carry a link different from the video's url. Hence every match of
  \<open>match_videos_to_json\<close> is for an entry that has no link yet, or whose link is
  the very url the match proposes.
\<close>

theorem matches_never_override:
  "(find_best_match lib c vid es = (Some e, s) \<longrightarrow>
      e \<in> set es \<and> \<not> (truthy (videoUrl e) \<and> v_url vid \<noteq> videoUrl e)) \<and>
   (\<forall>m \<in> set (match_videos_to_json lib c videos es).
      json_entry m \<in> set es \<and>
      (\<not> truthy (videoUrl (json_entry m)) \<or> videoUrl (json_entry m) = Some (video_url m)))"
proof
  show "find_best_match lib c vid es = (Some e, s) \<longrightarrow>
      e \<in> set es \<and> \<not> (truthy (videoUrl e) \<and> v_url vid \<noteq> videoUrl e)"
    using find_best_match_admissible by blast
  show "\<forall>m \<in> set (match_videos_to_json lib c videos es).
      json_entry m \<in> set es \<and>
      (\<not> truthy (videoUrl (json_entry m)) \<or> videoUrl (json_entry m) = Some (video_url m))"
  proof (induction videos)
    case Nil then show ?case by simp
  next
    case (Cons v vs)
    obtain b s where r: "find_best_match lib c v es = (b, s)" by force
    show ?case
    proof (cases b)
      case None then show ?thesis using r Cons by simp
    next
      case (Some e)
      have a: "e \<in> set es" "\<not> (truthy (videoUrl e) \<and> v_url v \<noteq> videoUrl e)"
        using find_best_match_admissible r Some by blast+
      have "\<not> truthy (videoUrl e) \<or> videoUrl e = Some (get_or_empty (v_url v))"
        using a(2) by (cases "v_url v") (auto simp: truthy_def get_or_empty_def)
      then show ?thesis using r Some Cons a(1) by auto
    qed
  qed
qed

lemma clean_ab: "clean_title [97, 98] = [97, 98]"
  by (simp add: clean_defs string_defs char_defs)

theorem matches_never_override_witness:
  "find_best_match no_fuzz 70 a_video [rec_title_linked, rec_title] = (Some rec_title, 105) \<and>
   rec_title \<in> set [rec_title_linked, rec_title] \<and>
   set (match_videos_to_json no_fuzz 70 [a_video] [rec_title_linked, rec_title]) =
     {cand rec_title (asc ''u2'') 105}"
  using matches_never_override [of no_fuzz 70 a_video "[rec_title_linked, rec_title]" rec_title 105 "[a_video]"]
  by (simp add: find_best_match_def calculate_match_score_def clean_ab is_playlist_appropriate_def
      dict_nonempty_def example_defs truthy_def get_or_empty_def asc_def)

section \<open>Candidate selection\<close>

lemma best_matches_map_filter:
  "best_matches lib src c film other = List.map_filter (candidate lib src c film) other"
  by (induction other) (auto simp: List.map_filter_simps split: option.splits)

lemma candidate_props:
  "candidate lib src c film item = Some m \<Longrightarrow>
   c \<le> x_confidence m \<and> x_film m = film \<and> x_match m = item \<and> truthy (videoUrl item)"
  by (auto simp: candidate_def Let_def split: if_splits list.splits)

lemma best_matches_props:
  "m \<in> set (best_matches lib src c film other) \<Longrightarrow>
   c \<le> x_confidence m \<and> x_film m = film \<and> x_match m \<in> set other \<and> truthy (videoUrl (x_match m))"
  by (induction other) (auto split: option.splits dest: candidate_props)

lemma sort_reverse_mset: "mset (sort_reverse f xs) = mset xs"
  by (simp add: sort_reverse_def)

lemma sort_reverse_sorted: "sorted (rev (map f (sort_reverse f xs)))"
  by (simp add: sort_reverse_def rev_map)

lemma sort_reverse_stable:
  "filter (\<lambda>x. f x = k) (sort_reverse f xs) = filter (\<lambda>x. f x = k) xs"
  by (simp add: sort_reverse_def rev_filter[symmetric] sort_key_stable)

lemma find_matches_concat:
  "find_matches lib films other src c =
   concat (map (\<lambda>film. take 3 (sort_reverse x_confidence (best_matches lib src c film other))) films)"
  by (induction films) simp_all

text \<open>
  C4. The result of \<open>find_matches\<close> is the concatenation of one part per film, in
  the order of the films. Each part has at most 3 matches; each of its matches is
  for that film and an item of the pool and has a confidence of at least the
  minimum. The part is the first 3 elements of a ranking of all candidates of the
  film: the ranking has the same elements as the candidates taken in pool order, is
  in descending order of confidence, and for every confidence value lists the
  candidates with that value in pool order.
\<close>

theorem find_matches_selection:
  "\<exists>parts. find_matches lib films other src c = concat parts \<and> length parts = length films \<and>
     (\<forall>i < length films.
        length (parts ! i) \<le> 3 \<and>
        (\<forall>m \<in> set (parts ! i). c \<le> x_confidence m \<and> x_film m = films ! i \<and> x_match m \<in> set other) \<and>
        (\<exists>ranked. parts ! i = take 3 ranked \<and>
           mset ranked = mset (List.map_filter (candidate lib src c (films ! i)) other) \<and>
           sorted (rev (map x_confidence ranked)) \<and>
           (\<forall>k. filter (\<lambda>m. x_confidence m = k) ranked =
                filter (\<lambda>m. x_confidence m = k)
                  (List.map_filter (candidate lib src c (films ! i)) other))))"
proof -
  let ?ranked = "\<lambda>film. sort_reverse x_confidence (best_matches lib src c film other)"
  let ?parts = "map (\<lambda>film. take 3 (?ranked film)) films"
  have "\<forall>i < length films.
        length (?parts ! i) \<le> 3 \<and>
        (\<forall>m \<in> set (?parts ! i). c \<le> x_confidence m \<and> x_film m = films ! i \<and> x_match m \<in> set other) \<and>
        (\<exists>ranked. ?parts ! i = take 3 ranked \<and>
           mset ranked = mset (List.map_filter (candidate lib src c (films ! i)) other) \<and>
           sorted (rev (map x_confidence ranked)) \<and>
           (\<forall>k. filter (\<lambda>m. x_confidence m = k) ranked =
                filter (\<lambda>m. x_confidence m = k)
                  (List.map_filter (candidate lib src c (films ! i)) other)))"
  proof (intro allI impI)
    fix i assume i: "i < length films"
    let ?f = "films ! i"
    have p: "?parts ! i = take 3 (?ranked ?f)" using i by simp
    have a: "length (?parts ! i) \<le> 3" unfolding p by simp
    have b: "\<forall>m \<in> set (?parts ! i). c \<le> x_confidence m \<and> x_film m = ?f \<and> x_match m \<in> set other"
    proof
      fix m assume "m \<in> set (?parts ! i)"
      then have "m \<in> set (?ranked ?f)" unfolding p by (rule in_set_takeD)
      then have "m \<in># mset (?ranked ?f)" by simp
      then have "m \<in> set (best_matches lib src c ?f other)"
        unfolding sort_reverse_mset by simp
      then show "c \<le> x_confidence m \<and> x_film m = ?f \<and> x_match m \<in> set other"
        using best_matches_props by blast
    qed
    have c: "mset (?ranked ?f) = mset (List.map_filter (candidate lib src c ?f) other)"
      by (simp add: sort_reverse_mset best_matches_map_filter)
    have d: "sorted (rev (map x_confidence (?ranked ?f)))" by (rule sort_reverse_sorted)
    have e: "\<forall>k. filter (\<lambda>m. x_confidence m = k) (?ranked ?f) =
                filter (\<lambda>m. x_confidence m = k) (List.map_filter (candidate lib src c ?f) other)"
      by (simp add: sort_reverse_stable best_matches_map_filter)
    show "length (?parts ! i) \<le> 3 \<and>
        (\<forall>m \<in> set (?parts ! i). c \<le> x_confidence m \<and> x_film m = films ! i \<and> x_match m \<in> set other) \<and>
        (\<exists>ranked. ?parts ! i = take 3 ranked \<and>
           mset ranked = mset (List.map_filter (candidate lib src c (films ! i)) other) \<and>
           sorted (rev (map x_confidence ranked)) \<and>
           (\<forall>k. filter (\<lambda>m. x_confidence m = k) ranked =
                filter (\<lambda>m. x_confidence m = k)
                  (List.map_filter (candidate lib src c (films ! i)) other)))"
      using a b c d e p by blast
  qed
  moreover have "find_matches lib films other src c = concat ?parts" by (rule find_matches_concat)
  moreover have "length ?parts = length films" by simp
  ultimately show ?thesis by blast
qed

lemma normalize_ab: "normalize_title [97, 98] = [97, 98]"
  by (simp add: normalize_defs string_defs char_defs)

lemma normalize_bracketed_ab: "normalize_title [12298, 97, 98, 12299] = [97, 98]"
  by (simp add: normalize_defs string_defs char_defs)

lemma normalize_parenthesized_ab: "normalize_title [40, 97, 98, 41] = [97, 98]"
  by (simp add: normalize_defs string_defs char_defs)

lemma sim_pool:
  "calculate_similarity lib [97, 98] [97, 98] = 1"
  "calculate_similarity lib [97, 98] [12298, 97, 98, 12299] = 95 / 100"
  "calculate_similarity lib [97, 98] [40, 97, 98, 41] = 95 / 100"
  by (simp_all add: calculate_similarity_def placeholders_def normalize_ab
      normalize_bracketed_ab normalize_parenthesized_ab string_defs char_defs)

theorem find_matches_selection_witness:
  "map (\<lambda>m. (x_video_url m, x_confidence m))
     (find_matches ascii_text [rec_title] pool4 ''ads'' (6 / 10)) =
     [(asc ''u1'', 1), (asc ''u3'', 1), (asc ''u2'', 95 / 100)] \<and>
   map x_video_url (List.map_filter (candidate ascii_text ''ads'' (6 / 10) rec_title) pool4) =
     [asc ''u1'', asc ''u2'', asc ''u3'', asc ''u4'']"
proof -
  have ev: "map (\<lambda>m. (x_video_url m, x_confidence m))
     (find_matches ascii_text [rec_title] pool4 ''ads'' (6 / 10)) =
     [(asc ''u1'', 1), (asc ''u3'', 1), (asc ''u2'', 95 / 100)]"
    by (simp add: sort_reverse_def pool4_def pool_item_def candidate_def similarities_def
        example_defs truthy_def get_or_empty_def char_defs sim_pool)
  have pool: "map x_video_url (List.map_filter (candidate ascii_text ''ads'' (6 / 10) rec_title) pool4) =
     [asc ''u1'', asc ''u2'', asc ''u3'', asc ''u4'']"
    by (simp add: List.map_filter_simps pool4_def pool_item_def candidate_def similarities_def
        example_defs truthy_def get_or_empty_def char_defs sim_pool)
  from find_matches_selection [of ascii_text "[rec_title]" pool4 "''ads''" "6 / 10"]
  obtain parts where "find_matches ascii_text [rec_title] pool4 ''ads'' (6 / 10) = concat parts"
    "length parts = 1" "length (parts ! 0) \<le> 3"
    by auto
  then show ?thesis using ev pool by simp
qed

section \<open>Idempotence of the normalizers\<close>

subsection \<open>White space and stripping\<close>

lemma collapse_from_fixed: "ws_normal_from b s \<Longrightarrow> collapse_from b s = s"
  by (induction s arbitrary: b) (auto split: if_splits)

lemma ws_normal_collapse_from: "ws_normal_from b (collapse_from b s)"
  by (induction s arbitrary: b) (auto simp: is_space_def SP_def)

lemma ws_normal_weaken: "ws_normal_from b s \<Longrightarrow> ws_normal_from False s"
  by (cases s) (auto split: if_splits)

lemma ws_normal_prefix: "ws_normal_from b (xs @ ys) \<Longrightarrow> ws_normal_from b xs"
  by (induction xs arbitrary: b) (auto split: if_splits)

lemma ws_normal_suffix: "ws_normal_from b (xs @ ys) \<Longrightarrow> ws_normal_from False ys"
proof (induction xs arbitrary: b)
  case Nil then show ?case by (simp add: ws_normal_weaken)
next
  case (Cons x xs) then show ?case by (auto split: if_splits)
qed

lemma rev_dropWhile_split: "rev (dropWhile P (rev t)) @ rev (takeWhile P (rev t)) = t"
proof -
  have "rev (takeWhile P (rev t) @ dropWhile P (rev t)) = t" by simp
  then show ?thesis by (simp only: rev_append)
qed

lemma ws_normal_strip_by: "ws_normal_from False s \<Longrightarrow> ws_normal_from False (strip_by P s)"
proof -
  assume a: "ws_normal_from False s"
  have "ws_normal_from False (takeWhile P s @ dropWhile P s)" using a by simp
  then have t: "ws_normal_from False (dropWhile P s)" by (rule ws_normal_suffix)
  let ?t = "dropWhile P s"
  have "ws_normal_from False (rev (dropWhile P (rev ?t)) @ rev (takeWhile P (rev ?t)))"
    using t by (simp only: rev_dropWhile_split)
  then show ?thesis unfolding strip_by_def by (rule ws_normal_prefix)
qed

lemma strip_by_ends:
  "strip_by P w = [] \<or> (\<not> P (hd (strip_by P w)) \<and> \<not> P (last (strip_by P w)))"
proof (cases "strip_by P w = []")
  case True then show ?thesis by simp
next
  case False
  let ?t = "dropWhile P w"
  let ?d = "dropWhile P (rev ?t)"
  have d: "?d \<noteq> []" using False by (simp add: strip_by_def)
  have t: "?t \<noteq> []"
  proof
    assume n: "?t = []"
    have "?d = []" unfolding n by simp
    then show False using d by blast
  qed
  have hd_d: "\<not> P (hd ?d)" using d by (rule hd_dropWhile)
  have hd_t: "\<not> P (hd ?t)" using t by (rule hd_dropWhile)
  have "rev ?t = takeWhile P (rev ?t) @ ?d" by simp
  then have "last (rev ?t) = last ?d" using d by (metis last_appendR)
  then have "last ?d = hd ?t" using t by (simp add: last_rev)
  then have "\<not> P (hd (rev ?d))" using hd_t d by (simp add: hd_rev)
  moreover have "\<not> P (last (rev ?d))" using hd_d d by (simp add: last_rev)
  ultimately show ?thesis by (simp add: strip_by_def)
qed

lemma strip_by_fixed: "s = [] \<or> (\<not> P (hd s) \<and> \<not> P (last s)) \<Longrightarrow> strip_by P s = s"
proof (cases s)
  case Nil then show ?thesis by (simp add: strip_by_def)
next
  case (Cons c cs)
  assume "s = [] \<or> (\<not> P (hd s) \<and> \<not> P (last s))"
  then have h: "\<not> P (hd s)" and l: "\<not> P (last s)" using Cons by auto
  have 1: "dropWhile P s = s" using h Cons by simp
  have "rev s \<noteq> []" using Cons by simp
  moreover have "\<not> P (hd (rev s))" unfolding hd_rev by (rule l)
  ultimately have 2: "dropWhile P (rev s) = rev s" by (cases "rev s") auto
  show ?thesis by (simp add: strip_by_def 1 2)
qed

lemma set_split_head: "set (split_head m s) \<subseteq> set s"
  by (induction s) auto

lemma set_collapse_from: "set (collapse_from b s) \<subseteq> insert SP (set s)"
  by (induction s arbitrary: b) auto

lemma set_strip_by: "set (strip_by P s) \<subseteq> set s"
proof -
  have "set (strip_by P s) \<subseteq> set (dropWhile P s)"
    unfolding strip_by_def using set_dropWhileD[of _ P "rev (dropWhile P s)"] by auto
  then show ?thesis using set_dropWhileD[of _ P s] by blast
qed

lemma dropWhile_same_length: "length (dropWhile P s) = length s \<Longrightarrow> dropWhile P s = s"
proof -
  assume a: "length (dropWhile P s) = length s"
  have "length (takeWhile P s) + length (dropWhile P s) = length s"
    by (simp only: length_append[symmetric] takeWhile_dropWhile_id)
  then have "takeWhile P s = []" using a by simp
  then show ?thesis using takeWhile_dropWhile_id[of P s] by simp
qed

lemma length_strip_by: "length (strip_by P s) \<le> length s"
proof -
  have "length (strip_by P s) \<le> length (dropWhile P s)"
    unfolding strip_by_def using length_dropWhile_le[of P "rev (dropWhile P s)"] by simp
  then show ?thesis using length_dropWhile_le[of P s] by simp
qed

lemma strip_by_same_length: "length (strip_by P s) = length s \<Longrightarrow> strip_by P s = s"
proof -
  assume a: "length (strip_by P s) = length s"
  have 1: "length (strip_by P s) \<le> length (dropWhile P s)"
    unfolding strip_by_def using length_dropWhile_le[of P "rev (dropWhile P s)"] by simp
  have 2: "length (dropWhile P s) \<le> length s" by (rule length_dropWhile_le)
  have d: "dropWhile P s = s" using a 1 2 by (intro dropWhile_same_length) simp
  have "length (dropWhile P (rev s)) = length (rev s)"
    using a unfolding strip_by_def d by simp
  then have "dropWhile P (rev s) = rev s" by (rule dropWhile_same_length)
  then show ?thesis unfolding strip_by_def d by simp
qed

lemma length_collapse_from: "length (collapse_from b s) \<le> length s"
  by (induction s arbitrary: b) (auto simp: le_SucI)

subsection \<open>A pattern that matches nowhere\<close>

lemma re_search_none: "(\<forall>p s. y = p @ s \<longrightarrow> m s = None) \<Longrightarrow> re_search m y = None"
proof (induction y)
  case Nil then show ?case by simp
next
  case (Cons c cs)
  have 1: "m (c # cs) = None" using Cons.prems by simp
  have "\<forall>p s. cs = p @ s \<longrightarrow> m s = None"
  proof (intro allI impI)
    fix p s assume "cs = p @ s"
    then have "c # cs = (c # p) @ s" by simp
    then show "m s = None" using Cons.prems by blast
  qed
  then show ?case using Cons.IH 1 by simp
qed

lemma split_head_fixed: "(\<forall>p s. y = p @ s \<longrightarrow> \<not> m s) \<Longrightarrow> split_head m y = y"
proof (induction y)
  case Nil then show ?case by simp
next
  case (Cons c cs)
  have 1: "\<not> m (c # cs)" using Cons.prems by simp
  have "\<forall>p s. cs = p @ s \<longrightarrow> \<not> m s"
  proof (intro allI impI)
    fix p s assume "cs = p @ s"
    then have "c # cs = (c # p) @ s" by simp
    then show "\<not> m s" using Cons.prems by blast
  qed
  then show ?case using Cons.IH 1 by simp
qed

lemma re_sub_fixed: "(\<forall>p s. y = p @ s \<longrightarrow> m s = None) \<Longrightarrow> re_sub m y = y"
  unfolding re_sub_def
proof (induction y)
  case Nil then show ?case by simp
next
  case (Cons c cs)
  have 1: "m (c # cs) = None" using Cons.prems by simp
  have "\<forall>p s. cs = p @ s \<longrightarrow> m s = None"
  proof (intro allI impI)
    fix p s assume "cs = p @ s"
    then have "c # cs = (c # p) @ s" by simp
    then show "m s = None" using Cons.prems by blast
  qed
  then show ?case using Cons.IH 1 by simp
qed

lemma re_search_none_suffix: "re_search m y = None \<Longrightarrow> y = p @ s \<Longrightarrow> m s = None"
proof (induction y arbitrary: p)
  case Nil then show ?case by simp
next
  case (Cons c cs)
  have 1: "m (c # cs) = None" and 2: "re_search m cs = None"
    using Cons.prems(1) by (auto split: option.splits)
  show ?case
  proof (cases p)
    case Nil then show ?thesis using Cons.prems(2) 1 by simp
  next
    case (Cons d p')
    then have "cs = p' @ s" using Cons.prems(2) by simp
    then show ?thesis using Cons.IH[OF 2] by blast
  qed
qed

lemma re_sub_unmatched: "re_search m y = None \<Longrightarrow> re_sub m y = y"
  by (rule re_sub_fixed) (auto dest: re_search_none_suffix)

lemma is_substr_suffix: "starts_with a t \<Longrightarrow> is_substr a (p @ t)"
proof (induction p)
  case Nil then show ?case by (cases t) (auto simp: starts_with_def)
next
  case (Cons c p) then show ?case by simp
qed

lemma starts_with_ci_lower: "starts_with_ci a t \<longleftrightarrow> starts_with a (map ascii_lower t)"
  by (simp add: starts_with_ci_def starts_with_def take_map)

lemma youtube_exact_is_ci:
  "starts_with (asc ''- YouTube'') t \<Longrightarrow> starts_with_ci (asc ''- youtube'') t"
proof -
  assume "starts_with (asc ''- YouTube'') t"
  then have t: "take (length (asc ''- YouTube'')) t = asc ''- YouTube''"
    by (simp only: starts_with_def)
  have l: "length (asc ''- youtube'') = length (asc ''- YouTube'')" by (simp add: asc_def)
  have m: "map ascii_lower (asc ''- YouTube'') = asc ''- youtube''"
    by (simp add: asc_def ascii_lower_def)
  show ?thesis unfolding starts_with_ci_def l t by (rule m)
qed

lemma no_youtube_suffix:
  assumes n: "\<not> is_substr (asc ''- youtube'') (map ascii_lower y)" and y: "y = p @ t"
  shows "\<not> starts_with_ci (asc ''- youtube'') t" "\<not> starts_with (asc ''- YouTube'') t"
proof -
  show c: "\<not> starts_with_ci (asc ''- youtube'') t"
  proof
    assume "starts_with_ci (asc ''- youtube'') t"
    then have "starts_with (asc ''- youtube'') (map ascii_lower t)" by (simp add: starts_with_ci_lower)
    then have "is_substr (asc ''- youtube'') (map ascii_lower p @ map ascii_lower t)"
      by (rule is_substr_suffix)
    then show False using n y by simp
  qed
  show "\<not> starts_with (asc ''- YouTube'') t" using c youtube_exact_is_ci by blast
qed

lemma m_closing_none_inside:
  assumes y: "y \<noteq> []" "\<not> is_space (last y)" "last y \<noteq> RB" "last y \<noteq> RSB" and s: "y = p @ s"
  shows "m_closing s = None"
proof (cases s)
  case Nil then show ?thesis by (simp add: m_closing_def)
next
  case (Cons c t)
  show ?thesis
  proof (cases "t = []")
    case True
    then have "last y = c" using s Cons by simp
    then show ?thesis using y Cons True by (auto simp: m_closing_def)
  next
    case False
    then have "last y = last t" using s Cons by simp
    then have "\<not> is_space (last t)" using y by simp
    moreover have "last t \<in> set t" using False by simp
    ultimately have "dropWhile is_space t \<noteq> []" by (auto simp: dropWhile_eq_Nil_conv)
    then show ?thesis using Cons by (simp add: m_closing_def)
  qed
qed

lemma sub_label_fixed:
  "y = [] \<or> \<not> is_space (hd y) \<Longrightarrow> \<not> starts_with l y \<Longrightarrow> sub_label l y = y"
proof -
  assume a: "y = [] \<or> \<not> is_space (hd y)" and b: "\<not> starts_with l y"
  have "dropWhile is_space y = y" using a by (cases y) auto
  then show ?thesis using b by (simp add: sub_label_def)
qed

subsection \<open>A step that keeps the length changes nothing\<close>

lemma length_split_head: "length (split_head m s) \<le> length s"
  by (induction s) auto

lemma split_head_same_length:
  "length (split_head m s) = length s \<Longrightarrow> s = p @ t \<Longrightarrow> t \<noteq> [] \<Longrightarrow> \<not> m t"
proof (induction s arbitrary: p)
  case Nil then show ?case by simp
next
  case (Cons c cs)
  have 1: "\<not> m (c # cs)" using Cons.prems(1) by (auto split: if_splits)
  then have 2: "length (split_head m cs) = length cs" using Cons.prems(1) by simp
  show ?case
  proof (cases p)
    case Nil then show ?thesis using Cons.prems(2) 1 by simp
  next
    case (Cons d p')
    then have "cs = p' @ t" using Cons.prems(2) by simp
    then show ?thesis using Cons.IH[OF 2] Cons.prems(3) by blast
  qed
qed

lemma re_search_some: "re_search m y = Some g \<Longrightarrow> \<exists>p t. y = p @ t \<and> m t = Some g"
proof (induction y)
  case Nil then show ?case by simp
next
  case (Cons c cs)
  show ?case
  proof (cases "m (c # cs)")
    case (Some h)
    then have "m (c # cs) = Some g" using Cons.prems by simp
    then show ?thesis by (metis append_Nil)
  next
    case None
    then have "re_search m cs = Some g" using Cons.prems by simp
    then obtain p t where "cs = p @ t" "m t = Some g" using Cons.IH by blast
    then have "c # cs = (c # p) @ t \<and> m t = Some g" by simp
    then show ?thesis by blast
  qed
qed

lemma lazy_group_shorter: "lazy_group s = Some g \<Longrightarrow> length g < length s"
proof (cases s)
  case Nil
  assume "lazy_group s = Some g" then show ?thesis using Nil by (simp add: lazy_group_def)
next
  case (Cons c cs)
  assume a: "lazy_group s = Some g"
  let ?P = "\<lambda>d. d \<noteq> RB \<and> d \<noteq> NL"
  have "\<exists>d r. dropWhile ?P cs = d # r \<and> g = c # takeWhile ?P cs"
    using a Cons by (auto simp: lazy_group_def split: if_splits list.splits)
  then obtain d0 r0 where d0: "dropWhile ?P cs = d0 # r0" and g: "g = c # takeWhile ?P cs"
    by blast
  have d: "dropWhile ?P cs \<noteq> []" unfolding d0 by simp
  have "length (takeWhile ?P cs) + length (dropWhile ?P cs) = length cs"
    by (simp only: length_append[symmetric] takeWhile_dropWhile_id)
  then have "length (takeWhile ?P cs) < length cs" using d by (cases "dropWhile ?P cs") auto
  then show ?thesis using g Cons by simp
qed

lemma m_label_shorter: "m_label l s = Some g \<Longrightarrow> length g < length s"
proof -
  assume "m_label l s = Some g"
  then have "lazy_group (drop (length l + 1) s) = Some g"
    by (auto simp: m_label_def split: if_splits)
  then have "length g < length (drop (length l + 1) s)" by (rule lazy_group_shorter)
  then show ?thesis by simp
qed

lemma m_game_shorter: "m_game s = Some g \<Longrightarrow> length g < length s"
proof -
  assume a: "m_game s = Some g"
  let ?d = "dropWhile (\<lambda>c. c \<noteq> LB) (drop (length label_game) s)"
  obtain c t where d: "?d = c # t" and g: "lazy_group t = Some g"
    using a by (auto simp: m_game_def split: if_splits list.splits)
  have "length g < length t" using g by (rule lazy_group_shorter)
  moreover have "length ?d \<le> length (drop (length label_game) s)" by (rule length_dropWhile_le)
  ultimately show ?thesis using d by simp
qed

lemma first_match_some:
  "first_match ms y = Some g \<Longrightarrow> \<exists>m \<in> set ms. re_search m y = Some g"
proof (induction ms)
  case Nil then show ?case by simp
next
  case (Cons m ms)
  show ?case
  proof (cases "re_search m y")
    case None
    then have "first_match ms y = Some g" using Cons.prems by simp
    then show ?thesis using Cons.IH by auto
  next
    case (Some h)
    then have "re_search m y = Some g" using Cons.prems by simp
    then show ?thesis by simp
  qed
qed

lemma first_match_shorter:
  "first_match patterns_to_extract y = Some g \<Longrightarrow> length g < length y"
proof -
  assume "first_match patterns_to_extract y = Some g"
  then obtain m where m: "m \<in> set patterns_to_extract" and r: "re_search m y = Some g"
    using first_match_some by blast
  obtain p t where y: "y = p @ t" and t: "m t = Some g" using re_search_some[OF r] by blast
  have "m = m_game \<or> (\<exists>l. m = m_label l)" using m by (auto simp: patterns_to_extract_def)
  then have "length g < length t" using t m_game_shorter m_label_shorter by blast
  then show ?thesis using y by simp
qed

lemma is_substr_split: "is_substr a s \<Longrightarrow> a \<noteq> [] \<Longrightarrow> \<exists>p t. s = p @ t \<and> t \<noteq> [] \<and> starts_with a t"
proof (induction s)
  case Nil then show ?case by simp
next
  case (Cons c cs)
  show ?case
  proof (cases "starts_with a (c # cs)")
    case True
    then have "c # cs = [] @ (c # cs) \<and> c # cs \<noteq> [] \<and> starts_with a (c # cs)" by simp
    then show ?thesis by blast
  next
    case False
    then have "is_substr a cs" using Cons.prems(1) by simp
    then obtain p t where "cs = p @ t" "t \<noteq> []" "starts_with a t"
      using Cons.IH Cons.prems(2) by blast
    then have "c # cs = (c # p) @ t \<and> t \<noteq> [] \<and> starts_with a t" by simp
    then show ?thesis by blast
  qed
qed

lemma youtube_ci_found:
  assumes "is_substr (asc ''- youtube'') (map ascii_lower y)"
  shows "\<exists>p t. y = p @ t \<and> t \<noteq> [] \<and> starts_with_ci (asc ''- youtube'') t"
proof -
  have ne: "asc ''- youtube'' \<noteq> []" by (simp add: asc_def)
  obtain p' t' where s: "map ascii_lower y = p' @ t'" and t: "t' \<noteq> []"
    and w: "starts_with (asc ''- youtube'') t'"
    using is_substr_split[OF assms ne] by blast
  obtain p t where y: "y = p @ t" and "map ascii_lower p = p'" and t': "map ascii_lower t = t'"
    using s by (auto simp: map_eq_append_conv)
  have "t \<noteq> []" using t t' by auto
  moreover have "starts_with_ci (asc ''- youtube'') t" using w t' by (simp add: starts_with_ci_lower)
  ultimately show ?thesis using y by blast
qed

lemma length_re_sub_from: "length (re_sub_from m k s) \<le> length s"
  by (induction s arbitrary: k) (auto simp: le_SucI split: option.splits)

lemma re_sub_same_length:
  assumes sh: "\<forall>t r. m t = Some r \<longrightarrow> length r < length t"
  shows "length (re_sub_from m 0 s) = length s \<Longrightarrow> s = p @ t \<Longrightarrow> m t = None"
proof (induction s arbitrary: p)
  case Nil
  then have t: "t = []" by simp
  show ?case
  proof (cases "m t")
    case None then show ?thesis .
  next
    case (Some r)
    then have "length r < length t" using sh by blast
    then show ?thesis using t by simp
  qed
next
  case (Cons c cs)
  have 1: "m (c # cs) = None"
  proof (cases "m (c # cs)")
    case None then show ?thesis .
  next
    case (Some r)
    then have r: "length r < length (c # cs)" using sh by blast
    then have "re_sub_from m 0 (c # cs) = re_sub_from m (length cs - length r) cs"
      using Some by simp
    then have "length (re_sub_from m 0 (c # cs)) \<le> length cs"
      using length_re_sub_from[of m "length cs - length r" cs] by simp
    then show ?thesis using Cons.prems(1) by simp
  qed
  then have 2: "length (re_sub_from m 0 cs) = length cs" using Cons.prems(1) by simp
  show ?case
  proof (cases p)
    case Nil then show ?thesis using Cons.prems(2) 1 by simp
  next
    case (Cons d p')
    then have "cs = p' @ t" using Cons.prems(2) by simp
    then show ?thesis using Cons.IH[OF 2] by blast
  qed
qed

lemma re_sub_same_length_none:
  assumes sh: "\<forall>t r. m t = Some r \<longrightarrow> length r < length t"
    and l: "length (re_sub m y) = length y"
  shows "re_search m y = None"
proof (rule re_search_none, intro allI impI)
  fix p s assume y: "y = p @ s"
  have "length (re_sub_from m 0 y) = length y" using l by (simp add: re_sub_def)
  then show "m s = None" using y by (rule re_sub_same_length[OF sh])
qed

lemma line_end_length: "line_end r = Some q \<Longrightarrow> length q \<le> length r"
  using length_dropWhile_le[of "\<lambda>c. c \<noteq> NL" r]
  by (auto simp: line_end_def Let_def split: if_splits)

lemma m_channel_suffix_shorter: "m_channel_suffix s = Some r \<Longrightarrow> length r < length s"
proof -
  assume a: "m_channel_suffix s = Some r"
  obtain c s2 where d: "dropWhile is_space s = c # s2"
    and le: "line_end (drop (length label_channel) (dropWhile is_space s2)) = Some r"
    using a by (auto simp: m_channel_suffix_def Let_def split: list.splits if_splits)
  have "length r \<le> length (dropWhile is_space s2)" using line_end_length[OF le] by simp
  moreover have "length (dropWhile is_space s2) \<le> length s2" by (rule length_dropWhile_le)
  moreover have "length (c # s2) \<le> length s" using length_dropWhile_le[of is_space s] d by simp
  ultimately show ?thesis by simp
qed

lemma m_youtube_suffix_shorter: "m_youtube_suffix s = Some r \<Longrightarrow> length r < length s"
proof -
  assume a: "m_youtube_suffix s = Some r"
  obtain c s2 where d: "dropWhile is_space s = c # s2"
    and le: "line_end (drop (length (asc ''YouTube'')) (dropWhile is_space s2)) = Some r"
    using a by (auto simp: m_youtube_suffix_def Let_def split: list.splits if_splits)
  have "length r \<le> length (dropWhile is_space s2)" using line_end_length[OF le] by simp
  moreover have "length (dropWhile is_space s2) \<le> length s2" by (rule length_dropWhile_le)
  moreover have "length (c # s2) \<le> length s" using length_dropWhile_le[of is_space s] d by simp
  ultimately show ?thesis by simp
qed

lemma m_closing_shorter: "m_closing s = Some r \<Longrightarrow> length r < length s"
  by (cases s) (auto simp: m_closing_def split: if_splits)

lemma length_sub_label: "length (sub_label l s) \<le> length s"
proof -
  let ?s1 = "dropWhile is_space s"
  let ?s2 = "dropWhile is_space (drop (length l) ?s1)"
  have 1: "length ?s2 \<le> length s"
    using length_dropWhile_le[of is_space "drop (length l) ?s1"] length_dropWhile_le[of is_space s]
    by simp
  show ?thesis using 1 by (auto simp: sub_label_def Let_def split: list.splits)
qed

lemma sub_label_same_length:
  assumes l: "l \<noteq> []" and y: "y \<noteq> []" "\<not> is_space (hd y)"
    and s: "length (sub_label l y) = length y"
  shows "\<not> starts_with l y"
proof
  assume a: "starts_with l y"
  have d: "dropWhile is_space y = y" using y by (cases y) auto
  let ?s2 = "dropWhile is_space (drop (length l) y)"
  have "length ?s2 \<le> length (drop (length l) y)" by (rule length_dropWhile_le)
  moreover have "length (drop (length l) y) < length y" using l y by simp
  ultimately have "length ?s2 < length y" by simp
  moreover have "length (sub_label l y) \<le> length ?s2"
    using a by (auto simp: sub_label_def d split: list.splits)
  ultimately show False using s by simp
qed

subsection \<open>The results of the normalizers and their fixed points\<close>

lemma normalize_title_shape:
  "ws_normal_from False (normalize_title x) \<and>
   (normalize_title x = [] \<or>
    (\<not> is_space (hd (normalize_title x)) \<and> \<not> is_space (last (normalize_title x))))"
proof (cases "x = []")
  case True then show ?thesis by (simp add: normalize_title_def)
next
  case False
  then obtain u where u: "normalize_title x = py_strip (strip_chars strip_set (collapse_ws u))"
    by (simp add: normalize_title_def Let_def)
  have "ws_normal_from False (collapse_ws u)"
    unfolding collapse_ws_def by (rule ws_normal_collapse_from)
  then have "ws_normal_from False (normalize_title x)"
    unfolding u py_strip_def strip_chars_def by (intro ws_normal_strip_by)
  then show ?thesis using strip_by_ends[of is_space "strip_chars strip_set (collapse_ws u)"]
    unfolding u py_strip_def by blast
qed

lemma clean_title_shape:
  "ws_normal_from False (clean_title x) \<and>
   (clean_title x = [] \<or>
    (\<not> is_space (hd (clean_title x)) \<and> \<not> is_space (last (clean_title x))))"
proof (cases "x = []")
  case True then show ?thesis by (simp add: clean_title_def)
next
  case False
  then obtain u where u: "clean_title x = py_strip (collapse_ws u)"
    by (simp add: clean_title_def Let_def)
  have "ws_normal_from False (collapse_ws u)"
    unfolding collapse_ws_def by (rule ws_normal_collapse_from)
  then have "ws_normal_from False (clean_title x)"
    unfolding u py_strip_def by (intro ws_normal_strip_by)
  then show ?thesis using strip_by_ends[of is_space "collapse_ws u"]
    unfolding u py_strip_def by blast
qed

lemma normalize_title_no_bar: "FBAR \<notin> set (normalize_title x) \<and> BAR \<notin> set (normalize_title x)"
proof (cases "x = []")
  case True then show ?thesis by (simp add: normalize_title_def)
next
  case False
  define g where "g = (case first_match patterns_to_extract (py_strip x) of Some g \<Rightarrow> g | None \<Rightarrow> py_strip x)"
  define a where "a = takeWhile (\<lambda>c. c \<noteq> FBAR \<and> c \<noteq> BAR) g"
  define b where "b = split_head (starts_with_ci (asc ''- youtube'')) (split_head (starts_with (asc ''- YouTube'')) a)"
  have n: "normalize_title x = py_strip (strip_chars strip_set (collapse_ws b))"
    using False by (simp add: normalize_title_def Let_def g_def a_def b_def)
  have "\<forall>c \<in> set a. c \<noteq> FBAR \<and> c \<noteq> BAR" unfolding a_def by (auto dest: set_takeWhileD)
  moreover have "set b \<subseteq> set a" unfolding b_def using set_split_head by blast
  moreover have "set (normalize_title x) \<subseteq> insert SP (set b)"
    unfolding n py_strip_def strip_chars_def collapse_ws_def
    using set_strip_by set_collapse_from by blast
  ultimately have "\<forall>c \<in> set (normalize_title x). c = SP \<or> (c \<noteq> FBAR \<and> c \<noteq> BAR)"
    by blast
  then show ?thesis by (auto simp: SP_def FBAR_def BAR_def)
qed

lemma normalize_title_fixed:
  assumes w: "ws_normal_from False y"
    and e: "y = [] \<or> (\<not> is_space (hd y) \<and> \<not> is_space (last y))"
    and nb: "FBAR \<notin> set y \<and> BAR \<notin> set y"
    and s: "settled_normal y"
  shows "normalize_title y = y"
proof (cases "y = []")
  case True then show ?thesis by (simp add: normalize_title_def)
next
  case False
  have 1: "py_strip y = y" unfolding py_strip_def using e by (rule strip_by_fixed)
  have 2: "first_match patterns_to_extract y = None" using s by (simp add: settled_normal_def)
  have 3: "takeWhile (\<lambda>c. c \<noteq> FBAR \<and> c \<noteq> BAR) y = y"
    using nb by (auto simp: takeWhile_eq_all_conv)
  have n: "\<not> is_substr (asc ''- youtube'') (map ascii_lower y)" using s by (simp add: settled_normal_def)
  have 4: "split_head (starts_with (asc ''- YouTube'')) y = y"
    by (rule split_head_fixed) (auto dest: no_youtube_suffix(2)[OF n])
  have 5: "split_head (starts_with_ci (asc ''- youtube'')) y = y"
    by (rule split_head_fixed) (auto dest: no_youtube_suffix(1)[OF n])
  have 6: "collapse_ws y = y" unfolding collapse_ws_def using w by (rule collapse_from_fixed)
  have 7: "strip_chars strip_set y = y"
    unfolding strip_chars_def using s False by (intro strip_by_fixed) (simp add: settled_normal_def)
  show ?thesis using False by (simp add: normalize_title_def 1 2 3 4 5 6 7)
qed

lemma clean_title_fixed:
  assumes w: "ws_normal_from False y"
    and e: "y = [] \<or> (\<not> is_space (hd y) \<and> \<not> is_space (last y))"
    and s: "settled_clean y"
  shows "clean_title y = y"
proof (cases "y = []")
  case True then show ?thesis by (simp add: clean_title_def)
next
  case False
  have 1: "re_sub m_channel_suffix y = y" using s by (simp add: settled_clean_def re_sub_unmatched)
  have 2: "re_sub m_youtube_suffix y = y" using s by (simp add: settled_clean_def re_sub_unmatched)
  have e': "y = [] \<or> \<not> is_space (hd y)" using e by blast
  have 3: "sub_label label_film y = y" "sub_label label_song y = y" "sub_label label_variety y = y"
    using s by (simp_all add: settled_clean_def sub_label_fixed[OF e'])
  have l: "\<not> is_space (last y)" "last y \<noteq> RB" "last y \<noteq> RSB"
    using e s False by (auto simp: settled_clean_def)
  have 4: "re_sub m_closing y = y"
    by (rule re_sub_fixed) (auto intro: m_closing_none_inside[OF False l])
  have 5: "collapse_ws y = y" unfolding collapse_ws_def using w by (rule collapse_from_fixed)
  have 6: "py_strip y = y" unfolding py_strip_def using e by (rule strip_by_fixed)
  show ?thesis using False by (simp add: clean_title_def 1 2 3 4 5 6)
qed

lemma normalize_title_fixed_only_if:
  assumes w: "ws_normal_from False y"
    and e: "y = [] \<or> (\<not> is_space (hd y) \<and> \<not> is_space (last y))"
    and nb: "FBAR \<notin> set y \<and> BAR \<notin> set y"
    and f: "normalize_title y = y"
  shows "settled_normal y"
proof (cases "y = []")
  case True then show ?thesis by (simp add: settled_normal_def patterns_to_extract_def m_label_def m_game_def
        starts_with_def label_game_def asc_def)
next
  case False
  have 1: "py_strip y = y" unfolding py_strip_def using e by (rule strip_by_fixed)
  define g where "g = (case first_match patterns_to_extract y of Some g \<Rightarrow> g | None \<Rightarrow> y)"
  define a where "a = takeWhile (\<lambda>c. c \<noteq> FBAR \<and> c \<noteq> BAR) g"
  define b1 where "b1 = split_head (starts_with (asc ''- YouTube'')) a"
  define b2 where "b2 = split_head (starts_with_ci (asc ''- youtube'')) b1"
  define c where "c = collapse_ws b2"
  define d where "d = strip_chars strip_set c"
  have n: "normalize_title y = py_strip d"
    using False by (simp add: normalize_title_def Let_def 1 g_def a_def b1_def b2_def c_def d_def)
  have l1: "length (py_strip d) \<le> length d" unfolding py_strip_def by (rule length_strip_by)
  have l2: "length d \<le> length c" unfolding d_def strip_chars_def by (rule length_strip_by)
  have l3: "length c \<le> length b2" unfolding c_def collapse_ws_def by (rule length_collapse_from)
  have l4: "length b2 \<le> length b1" unfolding b2_def by (rule length_split_head)
  have l5: "length b1 \<le> length a" unfolding b1_def by (rule length_split_head)
  have l6: "length a \<le> length g" unfolding a_def by (rule length_takeWhile_le)
  have l7: "length g \<le> length y" unfolding g_def
    using first_match_shorter[of y] by (auto split: option.splits simp: less_imp_le)
  have ly: "length (py_strip d) = length y" using f n by simp
  have fm: "first_match patterns_to_extract y = None"
  proof (cases "first_match patterns_to_extract y")
    case None then show ?thesis .
  next
    case (Some h)
    then have "length g < length y" unfolding g_def using first_match_shorter[of y h] by simp
    then show ?thesis using ly l1 l2 l3 l4 l5 l6 by linarith
  qed
  have g: "g = y" unfolding g_def fm by simp
  have a: "a = y" unfolding a_def g using nb by (auto simp: takeWhile_eq_all_conv)
  have "length b1 = length y" using ly l1 l2 l3 l4 l5[unfolded a] by linarith
  then have b1len: "length (split_head (starts_with (asc ''- YouTube'')) y) = length y"
    unfolding b1_def a .
  have yt1: "\<forall>p t. y = p @ t \<longrightarrow> \<not> (t \<noteq> [] \<and> starts_with (asc ''- YouTube'') t)"
    using split_head_same_length[OF b1len] by blast
  have ne1: "\<And>t. starts_with (asc ''- YouTube'') t \<Longrightarrow> t \<noteq> []"
    by (auto simp: starts_with_def asc_def)
  have yt1': "\<forall>p t. y = p @ t \<longrightarrow> \<not> starts_with (asc ''- YouTube'') t"
    using yt1 ne1 by blast
  have b1: "b1 = y" unfolding b1_def a using yt1' by (intro split_head_fixed) blast
  have "length b2 = length y" using ly l1 l2 l3 l4[unfolded b1] by linarith
  then have b2len: "length (split_head (starts_with_ci (asc ''- youtube'')) y) = length y"
    unfolding b2_def b1 .
  have yt2: "\<forall>p t. y = p @ t \<longrightarrow> t \<noteq> [] \<longrightarrow> \<not> starts_with_ci (asc ''- youtube'') t"
    using split_head_same_length[OF b2len] by blast
  have sub: "\<not> is_substr (asc ''- youtube'') (map ascii_lower y)"
    using youtube_ci_found[of y] yt2 by blast
  have ne2: "\<And>t. starts_with_ci (asc ''- youtube'') t \<Longrightarrow> t \<noteq> []"
    by (auto simp: starts_with_ci_def asc_def)
  have yt2': "\<forall>p t. y = p @ t \<longrightarrow> \<not> starts_with_ci (asc ''- youtube'') t"
    using yt2 ne2 by blast
  have b2: "b2 = y" unfolding b2_def b1 using yt2' by (rule split_head_fixed)
  have c: "c = y" unfolding c_def b2 collapse_ws_def using w by (rule collapse_from_fixed)
  have "length d = length y" using ly l1 l2[unfolded c] by linarith
  then have "strip_by (\<lambda>c. c \<in> set strip_set) y = y"
    unfolding d_def c strip_chars_def by (rule strip_by_same_length)
  then have ends: "hd y \<notin> set strip_set \<and> last y \<notin> set strip_set"
    using strip_by_ends[of "\<lambda>c. c \<in> set strip_set" y] False by simp
  show ?thesis using fm sub ends by (simp add: settled_normal_def)
qed

lemma clean_title_fixed_only_if:
  assumes w: "ws_normal_from False y"
    and e: "y = [] \<or> (\<not> is_space (hd y) \<and> \<not> is_space (last y))"
    and f: "clean_title y = y"
  shows "settled_clean y"
proof (cases "y = []")
  case True then show ?thesis
    by (simp add: settled_clean_def m_channel_suffix_def m_youtube_suffix_def starts_with_def
        label_film_def label_song_def label_variety_def)
next
  case False
  define r1 where "r1 = re_sub m_channel_suffix y"
  define r2 where "r2 = re_sub m_youtube_suffix r1"
  define t1 where "t1 = sub_label label_film r2"
  define t2 where "t2 = sub_label label_song t1"
  define t3 where "t3 = sub_label label_variety t2"
  define r4 where "r4 = re_sub m_closing t3"
  define c where "c = collapse_ws r4"
  have n: "clean_title y = py_strip c"
    using False by (simp add: clean_title_def Let_def r1_def r2_def t1_def t2_def t3_def r4_def c_def)
  have ly: "length (py_strip c) = length y" using f n by simp
  have l1: "length (py_strip c) \<le> length c" unfolding py_strip_def by (rule length_strip_by)
  have l2: "length c \<le> length r4" unfolding c_def collapse_ws_def by (rule length_collapse_from)
  have l3: "length r4 \<le> length t3" unfolding r4_def re_sub_def by (rule length_re_sub_from)
  have l4: "length t3 \<le> length t2" unfolding t3_def by (rule length_sub_label)
  have l5: "length t2 \<le> length t1" unfolding t2_def by (rule length_sub_label)
  have l6: "length t1 \<le> length r2" unfolding t1_def by (rule length_sub_label)
  have l7: "length r2 \<le> length r1" unfolding r2_def re_sub_def by (rule length_re_sub_from)
  have l8: "length r1 \<le> length y" unfolding r1_def re_sub_def by (rule length_re_sub_from)
  have hd: "\<not> is_space (hd y)" and la: "\<not> is_space (last y)" using e False by auto
  have "length r1 = length y" using ly l1 l2 l3 l4 l5 l6 l7 l8 by linarith
  then have "length (re_sub m_channel_suffix y) = length y" unfolding r1_def .
  then have s1: "re_search m_channel_suffix y = None"
    using m_channel_suffix_shorter by (intro re_sub_same_length_none) blast
  have r1: "r1 = y" unfolding r1_def using s1 by (rule re_sub_unmatched)
  have "length r2 = length y" using ly l1 l2 l3 l4 l5 l6 l7[unfolded r1] by linarith
  then have "length (re_sub m_youtube_suffix y) = length y" unfolding r2_def r1 .
  then have s2: "re_search m_youtube_suffix y = None"
    using m_youtube_suffix_shorter by (intro re_sub_same_length_none) blast
  have r2: "r2 = y" unfolding r2_def r1 using s2 by (rule re_sub_unmatched)
  have e': "y = [] \<or> \<not> is_space (hd y)" using hd by simp
  have "length t1 = length y" using ly l1 l2 l3 l4 l5 l6[unfolded r2] by linarith
  then have "length (sub_label label_film y) = length y" unfolding t1_def r2 .
  then have s3: "\<not> starts_with label_film y"
    using False hd by (intro sub_label_same_length) (simp_all add: label_film_def)
  have t1: "t1 = y" unfolding t1_def r2 using s3 by (rule sub_label_fixed[OF e'])
  have "length t2 = length y" using ly l1 l2 l3 l4 l5[unfolded t1] by linarith
  then have "length (sub_label label_song y) = length y" unfolding t2_def t1 .
  then have s4: "\<not> starts_with label_song y"
    using False hd by (intro sub_label_same_length) (simp_all add: label_song_def)
  have t2: "t2 = y" unfolding t2_def t1 using s4 by (rule sub_label_fixed[OF e'])
  have "length t3 = length y" using ly l1 l2 l3 l4[unfolded t2] by linarith
  then have "length (sub_label label_variety y) = length y" unfolding t3_def t2 .
  then have s5: "\<not> starts_with label_variety y"
    using False hd by (intro sub_label_same_length) (simp_all add: label_variety_def)
  have t3: "t3 = y" unfolding t3_def t2 using s5 by (rule sub_label_fixed[OF e'])
  have "length r4 = length y" using ly l1 l2 l3[unfolded t3] by linarith
  then have "length (re_sub m_closing y) = length y" unfolding r4_def t3 .
  then have "re_search m_closing y = None"
    using m_closing_shorter by (intro re_sub_same_length_none) blast
  moreover have "y = butlast y @ [last y]" using False by simp
  ultimately have "m_closing [last y] = None" by (rule re_search_none_suffix)
  then have s6: "last y \<noteq> RB \<and> last y \<noteq> RSB" by (auto simp: m_closing_def split: if_splits)
  show ?thesis using s1 s2 s3 s4 s5 s6 by (simp add: settled_clean_def)
qed

text \<open>
  C2, as stated, fails for both normalizers. \<open>normalize_title\<close> strips the
  bracket and colon characters before it strips white space: the text colon, space,
  colon, \<open>a\<close> becomes colon, \<open>a\<close>, and a second pass removes that colon too.
  \<open>clean_title\<close> removes one closing bracket at the end of the text: \<open>a\<close> followed
  by two closing brackets keeps one bracket, and a second pass removes it.
\<close>

theorem normalizers_not_idempotent_counterexample:
  "normalize_title (normalize_title (asc '': :a'')) \<noteq> normalize_title (asc '': :a'') \<and>
   clean_title (clean_title (asc ''a'' @ [RB, RB])) \<noteq> clean_title (asc ''a'' @ [RB, RB])"
  by (simp add: normalize_defs clean_defs string_defs char_defs)

text \<open>
  C2, amended. A second pass of \<open>normalize_title\<close> changes nothing exactly when
  the result of the first pass is settled: no pattern of the list is found in it, it
  does not contain \<open>- youtube\<close> in any letter case, and it neither starts nor ends
  with a character of the strip set. A second pass of \<open>clean_title\<close> changes nothing
  exactly when the result of the first pass is settled: it contains no bar followed
  by the channel name and no hyphen followed by \<open>YouTube\<close> (white space allowed
  around the bar and the hyphen), it does not start with one of the three labels,
  and it does not end with a closing bracket.
\<close>

theorem normalizers_idempotent_iff_settled:
  "(normalize_title (normalize_title x) = normalize_title x \<longleftrightarrow>
      settled_normal (normalize_title x)) \<and>
   (clean_title (clean_title x) = clean_title x \<longleftrightarrow> settled_clean (clean_title x))"
proof
  let ?y = "normalize_title x"
  have w: "ws_normal_from False ?y" and e: "?y = [] \<or> (\<not> is_space (hd ?y) \<and> \<not> is_space (last ?y))"
    using normalize_title_shape[of x] by blast+
  have nb: "FBAR \<notin> set ?y \<and> BAR \<notin> set ?y" by (rule normalize_title_no_bar)
  show "normalize_title ?y = ?y \<longleftrightarrow> settled_normal ?y"
    using normalize_title_fixed[OF w e nb] normalize_title_fixed_only_if[OF w e nb] by blast
next
  let ?y = "clean_title x"
  have w: "ws_normal_from False ?y" and e: "?y = [] \<or> (\<not> is_space (hd ?y) \<and> \<not> is_space (last ?y))"
    using clean_title_shape[of x] by blast+
  show "clean_title ?y = ?y \<longleftrightarrow> settled_clean ?y"
    using clean_title_fixed[OF w e] clean_title_fixed_only_if[OF w e] by blast
qed

lemma normalize_hyphenated: "normalize_title hyphenated = [97, 45, 98]"
  by (simp add: hyphenated_def normalize_defs string_defs char_defs)

lemma clean_hyphenated: "clean_title hyphenated = [97, 45, 98, 32, 124, 32, 99]"
  by (simp add: hyphenated_def clean_defs string_defs char_defs)

lemma normalize_colons: "normalize_title [58, 32, 58, 97] = [58, 97]"
  by (simp add: normalize_defs string_defs char_defs)

theorem normalizers_idempotent_iff_settled_witness:
  "settled_normal (normalize_title hyphenated) \<and>
   normalize_title (normalize_title hyphenated) = normalize_title hyphenated \<and>
   settled_clean (clean_title hyphenated) \<and>
   clean_title (clean_title hyphenated) = clean_title hyphenated \<and>
   settled_normal (normalize_title test_video_title) \<and>
   normalize_title (normalize_title test_video_title) = normalize_title test_video_title \<and>
   settled_clean (clean_title test_video_title) \<and>
   clean_title (clean_title test_video_title) = clean_title test_video_title \<and>
   \<not> settled_normal (normalize_title [58, 32, 58, 97]) \<and>
   normalize_title (normalize_title [58, 32, 58, 97]) \<noteq> normalize_title [58, 32, 58, 97]"
  using normalizers_idempotent_iff_settled [of hyphenated]
    normalizers_idempotent_iff_settled [of test_video_title]
    normalizers_idempotent_iff_settled [of "[58, 32, 58, 97]"]
  by (simp add: normalize_hyphenated clean_hyphenated normalize_test_video_title
      clean_test_video_title normalize_colons settled_normal_def settled_clean_def
      patterns_to_extract_def m_label_def m_game_def lazy_group_def m_channel_suffix_def
      m_youtube_suffix_def line_end_def string_defs char_defs)

end
